theory Spec2Isabelle
  imports Complex_Main
begin

section \<open>Python exceptions\<close>

text \<open>
  The exception classes the connection layer raises and catches.  \<open>ConnectionError\<close> is the ORM's
  own class (\<^verbatim>\<open>orm/exceptions.py\<close>), a subclass of \<open>Exception\<close>.  \<open>OtherException\<close> stands for
  any other subclass of \<open>Exception\<close> (what a Connection or an operation raises);
  \<open>BaseExceptionOnly\<close> stands for the classes that derive from \<open>BaseException\<close> and not from
  \<open>Exception\<close> (\<open>KeyboardInterrupt\<close>, \<open>SystemExit\<close>, \<open>asyncio.CancelledError\<close>), which
  \<^verbatim>\<open>except Exception\<close> does not catch.

  An exception object carries its message and its \<open>__cause__\<close> (set by \<^verbatim>\<open>raise ... from\<close>).
  The implicit \<open>__context__\<close> is not recorded.
\<close>

datatype exc_class =
    ConnectionError | ValueError | ZeroDivisionError | TimeoutError | QueueEmpty
  | OtherException | BaseExceptionOnly

datatype exc = Exc (exc_kind: exc_class) (exc_message: string) (exc_cause: "exc option")

definition is_Exception :: "exc \<Rightarrow> bool" where
  "is_Exception e = (exc_kind e \<noteq> BaseExceptionOnly)"

text \<open>\<^verbatim>\<open>raise C(msg)\<close> and \<^verbatim>\<open>raise C(msg) from c\<close> (\<open>c\<close> may be \<open>None\<close>).\<close>

definition raise_new :: "exc_class \<Rightarrow> string \<Rightarrow> exc" where
  "raise_new c msg = Exc c msg None"

definition raise_from :: "exc_class \<Rightarrow> string \<Rightarrow> exc option \<Rightarrow> exc" where
  "raise_from c msg cs = Exc c msg cs"

section \<open>Bulk results (\<^verbatim>\<open>orm/types.py\<close>)\<close>

record ('e, 'r) BulkResult =
  success_count :: int
  error_count :: int
  errors :: "'e list"
  results :: "'r list"

definition total_count :: "('e, 'r) BulkResult \<Rightarrow> int" where
  "total_count b = success_count b + error_count b"

text \<open>Python's true division of two ints raises \<open>ZeroDivisionError\<close> on a zero divisor.  The float
  it returns is idealised as a real number.\<close>

definition py_truediv :: "int \<Rightarrow> int \<Rightarrow> exc + real" where
  "py_truediv a b =
     (if b = 0 then Inl (raise_new ZeroDivisionError ''division by zero'')
      else Inr (real_of_int a / real_of_int b))"

definition success_rate :: "('e, 'r) BulkResult \<Rightarrow> exc + real" where
  "success_rate b =
     (if total_count b = 0 then Inr 0.0
      else (case py_truediv (success_count b) (total_count b) of
              Inl e \<Rightarrow> Inl e
            | Inr q \<Rightarrow> Inr (q * 100.0)))"

section \<open>Filter translation (\<^verbatim>\<open>orm/helpers/base_helpers.py\<close>)\<close>

subsection \<open>Python values and \<open>repr\<close>\<close>

text \<open>
  The filter values: ints, strings, booleans, \<open>None\<close>, lists and tuples.  Strings are sequences
  of code points below 256.
\<close>

datatype pyval =
    PyInt int | PyStr string | PyBool bool | PyNone
  | PyList "pyval list" | PyTuple "pyval list"

fun str_nat :: "nat \<Rightarrow> string" where
  "str_nat n = (if n < 10 then [''0123456789'' ! n]
                else str_nat (n div 10) @ [''0123456789'' ! (n mod 10)])"

declare str_nat.simps [simp del]

definition str_int :: "int \<Rightarrow> string" where
  "str_int i = (if i < 0 then CHR ''-'' # str_nat (nat (- i)) else str_nat (nat i))"

text \<open>\<^verbatim>\<open>sep.join(xs)\<close>\<close>

fun join :: "string \<Rightarrow> string list \<Rightarrow> string" where
  "join sep [] = []"
| "join sep [x] = x"
| "join sep (x # y # ys) = x @ sep @ join sep (y # ys)"

definition hex2 :: "nat \<Rightarrow> string" where
  "hex2 n = [''0123456789abcdef'' ! (n div 16), ''0123456789abcdef'' ! (n mod 16)]"

text \<open>\<open>repr\<close> of a string picks the quote (a double quote when the string has a single quote and
  no double quote, a single quote otherwise) and escapes the backslash, the chosen quote, tab,
  newline, carriage return and the code points that are not printable.\<close>

definition printable :: "char \<Rightarrow> bool" where
  "printable c = (let n = (of_char c :: nat) in
     32 \<le> n \<and> n \<noteq> 127 \<and> \<not> (128 \<le> n \<and> n \<le> 160) \<and> n \<noteq> 173)"

definition repr_quote :: "string \<Rightarrow> char" where
  "repr_quote s = (if CHR 0x27 \<in> set s \<and> CHR 0x22 \<notin> set s then CHR 0x22 else CHR 0x27)"

definition repr_char :: "char \<Rightarrow> char \<Rightarrow> string" where
  "repr_char q c =
     (if c = q \<or> c = CHR 0x5C then [CHR 0x5C, c]
      else if c = CHR 0x09 then [CHR 0x5C, CHR ''t'']
      else if c = CHR 0x0A then [CHR 0x5C, CHR ''n'']
      else if c = CHR 0x0D then [CHR 0x5C, CHR ''r'']
      else if printable c then [c]
      else [CHR 0x5C, CHR ''x''] @ hex2 (of_char c))"

definition repr_str :: "string \<Rightarrow> string" where
  "repr_str s = (let q = repr_quote s in [q] @ concat (map (repr_char q) s) @ [q])"

fun repr :: "pyval \<Rightarrow> string" where
  "repr (PyInt i) = str_int i"
| "repr (PyStr s) = repr_str s"
| "repr (PyBool b) = (if b then ''True'' else ''False'')"
| "repr PyNone = ''None''"
| "repr (PyList vs) = ''['' @ join '', '' (map repr vs) @ '']''"
| "repr (PyTuple [v]) = ''('' @ repr v @ '',)''"
| "repr (PyTuple vs) = ''('' @ join '', '' (map repr vs) @ '')''"

subsection \<open>\<open>_build_filter_query\<close>\<close>

text \<open>\<^verbatim>\<open>key.endswith(suffix)\<close> and the slice \<^verbatim>\<open>key[:-n]\<close> (for \<open>n > 0\<close>).\<close>

definition endswith :: "string \<Rightarrow> string \<Rightarrow> bool" where
  "endswith key suffix =
     (length suffix \<le> length key \<and> drop (length key - length suffix) key = suffix)"

definition drop_last :: "nat \<Rightarrow> string \<Rightarrow> string" where
  "drop_last n key = take (length key - n) key"

text \<open>The body of the loop over \<^verbatim>\<open>filter_kwargs.items()\<close>: the condition appended for one
  key and value.\<close>

definition filter_condition :: "string \<times> pyval \<Rightarrow> string" where
  "filter_condition kv = (case kv of (key, val) \<Rightarrow>
     if endswith key ''__gte'' then drop_last 5 key @ '' >= '' @ repr val
     else if endswith key ''__lte'' then drop_last 5 key @ '' <= '' @ repr val
     else if endswith key ''__gt'' then drop_last 4 key @ '' > '' @ repr val
     else if endswith key ''__lt'' then drop_last 4 key @ '' < '' @ repr val
     else if endswith key ''__ne'' then drop_last 4 key @ '' != '' @ repr val
     else if endswith key ''__in'' then
       (case val of
          PyList vs \<Rightarrow> drop_last 4 key @ '' IN ['' @ join '', '' (map repr vs) @ '']''
        | PyTuple vs \<Rightarrow> drop_last 4 key @ '' IN ['' @ join '', '' (map repr vs) @ '']''
        | _ \<Rightarrow> drop_last 4 key @ '' = '' @ repr val)
     else if endswith key ''__contains'' then drop_last 10 key @ '' CONTAINS '' @ repr val
     else key @ '' = '' @ repr val)"

text \<open>The loop: \<open>conditions\<close> starts empty and grows by one entry per item, in the iteration
  order of the dict (its insertion order), modelled as an association list.\<close>

fun filter_loop :: "(string \<times> pyval) list \<Rightarrow> string list \<Rightarrow> string list" where
  "filter_loop [] conditions = conditions"
| "filter_loop (kv # rest) conditions = filter_loop rest (conditions @ [filter_condition kv])"

definition build_filter_query :: "string \<Rightarrow> (string \<times> pyval) list \<Rightarrow> string" where
  "build_filter_query table filter_kwargs =
     (if filter_kwargs = [] then ''SELECT * FROM '' @ table
      else (let conditions = filter_loop filter_kwargs [];
                where_clause = join '' AND '' conditions
            in ''SELECT * FROM '' @ table @ '' WHERE '' @ where_clause))"

section \<open>Outcomes and observable events\<close>

text \<open>
  A call either returns a value, raises an exception, or never returns (it waits forever on a
  full bounded queue).  A Connection is identified by the number of its creation.  The trace
  lists, in order, the calls made on Connections, the waits and the log records.
\<close>

datatype 'a outcome = Returns 'a | Raises exc | Blocks

type_synonym conn = nat

datatype log_level = INFO | WARNING | ERROR

datatype event =
    Invoked conn
  | Slept real
  | Logged log_level
  | Created conn
  | CreateFailed
  | Probed conn
  | CloseCalled conn
  | Waited real
  | ReleaseCalled conn
  | BeginCalled conn
  | CommitCalled conn
  | RollbackCalled conn

fun invocations :: "event list \<Rightarrow> nat" where
  "invocations [] = 0"
| "invocations (Invoked c # tr) = Suc (invocations tr)"
| "invocations (ev # tr) = invocations tr"

fun sleeps :: "event list \<Rightarrow> real list" where
  "sleeps [] = []"
| "sleeps (Slept d # tr) = d # sleeps tr"
| "sleeps (ev # tr) = sleeps tr"

section \<open>Retry with exponential backoff (\<^verbatim>\<open>orm/connection/single.py\<close>, \<^verbatim>\<open>async_pool.py\<close>)\<close>

text \<open>
  The loop \<^verbatim>\<open>for attempt in range(max_retries + 1)\<close> of \<open>execute_with_retry\<close>, over the attempt
  indices still to run.  \<open>operation n\<close> is what the \<open>n\<close>-th invocation of the operation does (the
  operation is any callable and may answer differently each time), \<open>n\<close> counts the invocations
  made so far and \<open>last_exception\<close> is the loop's variable of that name.  An exception that is
  not an \<open>Exception\<close> is not caught.  Falling out of the loop raises
  \<^verbatim>\<open>ConnectionError(...) from last_exception\<close>.  The delay \<^verbatim>\<open>retry_delay * (2 ** attempt)\<close> is a
  float in the source and a real here.
\<close>

fun retry_loop ::
  "int \<Rightarrow> real \<Rightarrow> (nat \<Rightarrow> 'a outcome) \<Rightarrow> conn \<Rightarrow> int list \<Rightarrow> nat \<Rightarrow> exc option \<Rightarrow> event list
   \<Rightarrow> 'a outcome \<times> event list" where
  "retry_loop max_retries retry_delay operation c [] n last_exception tr =
     (Raises (raise_from ConnectionError
                (''Operation failed after '' @ str_int (max_retries + 1) @ '' attempts'')
                last_exception), tr)"
| "retry_loop max_retries retry_delay operation c (attempt # rest) n last_exception tr =
     (case operation n of
        Returns v \<Rightarrow> (Returns v, tr @ [Invoked c])
      | Blocks \<Rightarrow> (Blocks, tr @ [Invoked c])
      | Raises e \<Rightarrow>
          if is_Exception e then
            (if attempt < max_retries then
               retry_loop max_retries retry_delay operation c rest (Suc n) (Some e)
                 (tr @ [Invoked c, Logged WARNING, Slept (retry_delay * 2 ^ nat attempt)])
             else
               retry_loop max_retries retry_delay operation c rest (Suc n) (Some e)
                 (tr @ [Invoked c, Logged ERROR]))
          else (Raises e, tr @ [Invoked c]))"

text \<open>The events of one failed attempt that is followed by a retry.\<close>

definition failed_round :: "real \<Rightarrow> conn \<Rightarrow> nat \<Rightarrow> event list" where
  "failed_round d c i = [Invoked c, Logged WARNING, Slept (d * 2 ^ i)]"

text \<open>\<open>AsyncSingleConnection\<close> and \<open>SyncSingleConnection\<close>: one Connection and the retry policy.\<close>

record single_connection =
  sc_connection :: conn
  sc_max_retries :: int
  sc_retry_delay :: real

definition execute_with_retry ::
  "single_connection \<Rightarrow> (nat \<Rightarrow> 'a outcome) \<Rightarrow> event list \<Rightarrow> 'a outcome \<times> event list" where
  "execute_with_retry sc operation tr =
     retry_loop (sc_max_retries sc) (sc_retry_delay sc) operation (sc_connection sc)
       [0..sc_max_retries sc] 0 None tr"

section \<open>The world outside the pool\<close>

text \<open>
  Every call that reaches a Connection or the server may fail.  The environment \<open>w_env\<close> answers
  the \<open>n\<close>-th such call: \<open>None\<close> when it succeeds, \<open>Some e\<close> when it raises \<open>e\<close>.  \<open>w_tick\<close> counts
  the calls answered so far, \<open>w_fresh\<close> numbers the next Connection object and \<open>w_trace\<close> is the
  trace of events.
\<close>

record world =
  w_env :: "nat \<Rightarrow> exc option"
  w_tick :: nat
  w_fresh :: conn
  w_trace :: "event list"

definition emit :: "event \<Rightarrow> world \<Rightarrow> world" where
  "emit ev w = w\<lparr>w_trace := w_trace w @ [ev]\<rparr>"

definition call :: "event \<Rightarrow> world \<Rightarrow> exc option \<times> world" where
  "call ev w = (w_env w (w_tick w), w\<lparr>w_tick := Suc (w_tick w), w_trace := w_trace w @ [ev]\<rparr>)"

text \<open>\<^verbatim>\<open>connection.version()\<close> (the liveness probe) and \<^verbatim>\<open>connection.close()\<close>.\<close>

definition version :: "conn \<Rightarrow> world \<Rightarrow> exc option \<times> world" where
  "version c w = call (Probed c) w"

definition close :: "conn \<Rightarrow> world \<Rightarrow> exc option \<times> world" where
  "close c w = call (CloseCalled c) w"

section \<open>The connection pool (\<^verbatim>\<open>orm/connection/async_pool.py\<close>, \<^verbatim>\<open>sync_pool.py\<close>)\<close>

text \<open>
  \<open>AsyncConnectionPool\<close> and \<open>SyncConnectionPool\<close> have the same statements, one with \<open>await\<close>
  and one without, except in \<open>close_all\<close>, where the loop of the sync pool has one more handler
  (\<^verbatim>\<open>except Empty: break\<close>); \<open>close_all\<close> is therefore modelled twice and every other definition
  stands for both pools.  The definitions are sequential: the structural lock is always free in a
  sequential run and is not represented in them.  The interleaving of concurrent callers of
  \<open>_initialize_pool\<close> on the lock is modelled separately below.
\<close>

datatype connection_class = HttpSurrealConnection | WsSurrealConnection

record pool =
  p_url :: string
  p_namespace :: string
  p_database :: string
  p_auth_params :: "(string \<times> string) list"
  p_pool_size :: int
  p_max_retries :: int
  p_retry_delay :: real
  p_pool :: "conn list"
  p_available :: "conn list"
  p_closed :: bool
  p_connection_class :: connection_class

text \<open>
  Modelled from the spec: the module \<^verbatim>\<open>surrealdb/connections/url.py\<close> (\<open>Url\<close>, \<open>UrlScheme\<close>) is
  missing.  The spec names the supported schemes http, https, ws and wss; \<open>OtherScheme\<close> stands for
  any further member of the enumeration.  The parser \<open>Url\<close> itself is a parameter of \<open>pool_init\<close>:
  it returns the scheme of a URL or raises.
\<close>

datatype UrlScheme = HTTP | HTTPS | WS | WSS | OtherScheme string

fun scheme_name :: "UrlScheme \<Rightarrow> string" where
  "scheme_name HTTP = ''UrlScheme.HTTP''"
| "scheme_name HTTPS = ''UrlScheme.HTTPS''"
| "scheme_name WS = ''UrlScheme.WS''"
| "scheme_name WSS = ''UrlScheme.WSS''"
| "scheme_name (OtherScheme s) = ''UrlScheme.'' @ s"

text \<open>\<open>__init__\<close>: the fields, an empty pool list, an empty queue of capacity \<open>pool_size\<close>, and the
  connection class chosen by the scheme.\<close>

definition pool_init ::
  "(string \<Rightarrow> exc + UrlScheme) \<Rightarrow> string \<Rightarrow> string \<Rightarrow> string \<Rightarrow> (string \<times> string) list option
   \<Rightarrow> int \<Rightarrow> int \<Rightarrow> real \<Rightarrow> pool outcome" where
  "pool_init Url url namespace database auth_params pool_size max_retries retry_delay =
     (let fields = \<lambda>cls. \<lparr>p_url = url, p_namespace = namespace, p_database = database,
            p_auth_params = (case auth_params of None \<Rightarrow> [] | Some a \<Rightarrow> a),
            p_pool_size = pool_size, p_max_retries = max_retries, p_retry_delay = retry_delay,
            p_pool = [], p_available = [], p_closed = False, p_connection_class = cls\<rparr>
      in case Url url of
           Inl e \<Rightarrow> Raises e
         | Inr scheme \<Rightarrow>
             if scheme = HTTP \<or> scheme = HTTPS then Returns (fields HttpSurrealConnection)
             else if scheme = WS \<or> scheme = WSS then Returns (fields WsSurrealConnection)
             else Raises (raise_new ValueError (''Unsupported URL scheme: '' @ scheme_name scheme)))"

text \<open>
  The class decorator \<^verbatim>\<open>@logger.catch\<close> on the pool classes.  The decorator belongs to the logging
  library, which is not part of the repository; with its default arguments (\<open>reraise=False\<close>,
  \<open>default=None\<close>) the wrapper it returns calls the wrapped callable, and when that raises an
  \<open>Exception\<close> it logs the error and returns \<open>None\<close> instead.  The name \<open>AsyncConnectionPool\<close> (and
  \<open>SyncConnectionPool\<close>) that callers such as \<open>DatabaseManager\<close> use is the wrapped constructor.
\<close>

definition logger_catch :: "'a outcome \<Rightarrow> event list \<Rightarrow> 'a option outcome \<times> event list" where
  "logger_catch r tr =
     (case r of
        Returns v \<Rightarrow> (Returns (Some v), tr)
      | Raises e \<Rightarrow> if is_Exception e then (Returns None, tr @ [Logged ERROR]) else (Raises e, tr)
      | Blocks \<Rightarrow> (Blocks, tr))"

definition ConnectionPool ::
  "(string \<Rightarrow> exc + UrlScheme) \<Rightarrow> string \<Rightarrow> string \<Rightarrow> string \<Rightarrow> (string \<times> string) list option
   \<Rightarrow> int \<Rightarrow> int \<Rightarrow> real \<Rightarrow> event list \<Rightarrow> pool option outcome \<times> event list" where
  "ConnectionPool Url url namespace database auth_params n max_retries retry_delay tr =
     logger_catch (pool_init Url url namespace database auth_params n max_retries retry_delay) tr"

text \<open>The properties \<open>pool_size\<close>, \<open>available_connections\<close> and \<open>is_closed\<close>.\<close>

definition pool_size :: "pool \<Rightarrow> int" where
  "pool_size p = p_pool_size p"

definition available_connections :: "pool \<Rightarrow> nat" where
  "available_connections p = length (p_available p)"

definition is_closed :: "pool \<Rightarrow> bool" where
  "is_closed p = p_closed p"

text \<open>
  \<open>_create_connection\<close>: constructing the Connection object, \<open>signin\<close> (when there are
  credentials) and \<open>use\<close> are answered by the environment as one call.  An \<open>Exception\<close> is logged
  and wrapped in a \<open>ConnectionError\<close>.
\<close>

definition create_connection :: "pool \<Rightarrow> world \<Rightarrow> conn outcome \<times> world" where
  "create_connection p w =
     (let w1 = w\<lparr>w_tick := Suc (w_tick w)\<rparr> in
      case w_env w (w_tick w) of
        None \<Rightarrow> (Returns (w_fresh w1), emit (Created (w_fresh w1)) (w1\<lparr>w_fresh := Suc (w_fresh w1)\<rparr>))
      | Some e \<Rightarrow>
          if is_Exception e then
            (Raises (raise_from ConnectionError (''Failed to create connection: '' @ exc_message e)
                       (Some e)),
             emit (Logged ERROR) (emit CreateFailed w1))
          else (Raises e, emit CreateFailed w1))"

text \<open>\<^verbatim>\<open>Queue(maxsize=pool_size)\<close>: a queue with \<open>maxsize <= 0\<close> is unbounded; \<open>put\<close> on a full queue
  waits, and in a sequential run nobody makes room.\<close>

definition queue_full :: "pool \<Rightarrow> bool" where
  "queue_full p = (0 < p_pool_size p \<and> p_pool_size p \<le> int (length (p_available p)))"

definition put :: "conn \<Rightarrow> pool \<Rightarrow> pool option" where
  "put c p = (if queue_full p then None else Some (p\<lparr>p_available := p_available p @ [c]\<rparr>))"

text \<open>The loop \<^verbatim>\<open>for _ in range(self._pool_size)\<close> of \<open>_initialize_pool\<close>, by the number of
  iterations still to run.\<close>

fun init_loop :: "nat \<Rightarrow> pool \<Rightarrow> world \<Rightarrow> unit outcome \<times> pool \<times> world" where
  "init_loop 0 p w = (Returns (), p, w)"
| "init_loop (Suc k) p w =
     (case create_connection p w of
        (Returns c, w1) \<Rightarrow>
          (let p1 = p\<lparr>p_pool := p_pool p @ [c]\<rparr> in
           case put c p1 of
             None \<Rightarrow> (Blocks, p1, w1)
           | Some p2 \<Rightarrow> init_loop k p2 w1)
      | (Raises e, w1) \<Rightarrow>
          if is_Exception e then init_loop k p (emit (Logged ERROR) w1)
          else (Raises e, p, w1)
      | (Blocks, w1) \<Rightarrow> (Blocks, p, w1))"

definition initialize_pool :: "pool \<Rightarrow> world \<Rightarrow> unit outcome \<times> pool \<times> world" where
  "initialize_pool p w =
     (if p_pool p \<noteq> [] then (Returns (), p, w)
      else init_loop (nat (p_pool_size p)) p (emit (Logged INFO) w))"

text \<open>The statement \<^verbatim>\<open>if not self._pool: await self._initialize_pool()\<close> of \<open>acquire\<close>.\<close>

definition ensure_initialized :: "pool \<Rightarrow> world \<Rightarrow> unit outcome \<times> pool \<times> world" where
  "ensure_initialized p w = (if p_pool p = [] then initialize_pool p w else (Returns (), p, w))"

text \<open>
  \<open>acquire\<close>.  A caller that finds the queue empty waits; in a sequential run no other caller
  releases meanwhile, so the wait lasts the whole timeout of 30 seconds.
\<close>

definition acquire :: "pool \<Rightarrow> world \<Rightarrow> conn outcome \<times> pool \<times> world" where
  "acquire p w =
     (if p_closed p then (Raises (raise_new ConnectionError ''Connection pool is closed''), p, w)
      else
        case ensure_initialized p w of
          (Blocks, p1, w1) \<Rightarrow> (Blocks, p1, w1)
        | (Raises e, p1, w1) \<Rightarrow> (Raises e, p1, w1)
        | (Returns u, p1, w1) \<Rightarrow>
            (case p_available p1 of
               [] \<Rightarrow>
                 (Raises (raise_new ConnectionError ''Timeout waiting for available connection''),
                  p1, emit (Waited 30.0) w1)
             | connection # rest \<Rightarrow>
                 (let p2 = p1\<lparr>p_available := rest\<rparr> in
                  case version connection w1 of
                    (None, w2) \<Rightarrow> (Returns connection, p2, w2)
                  | (Some e, w2) \<Rightarrow>
                      if is_Exception e then
                        (case create_connection p2 (emit (Logged WARNING) w2) of
                           (Returns new_connection, w3) \<Rightarrow> (Returns new_connection, p2, w3)
                         | (Raises ce, w3) \<Rightarrow>
                             if is_Exception ce then
                               (Raises (raise_from ConnectionError
                                          (''Failed to acquire connection: '' @ exc_message ce)
                                          (Some ce)), p2, w3)
                             else (Raises ce, p2, w3)
                         | (Blocks, w3) \<Rightarrow> (Blocks, p2, w3))
                      else (Raises e, p2, w2))))"

text \<open>\<open>release\<close>.  Each \<open>close()\<close> is wrapped in \<^verbatim>\<open>try ... except Exception: pass\<close>.\<close>

definition close_quietly :: "conn \<Rightarrow> world \<Rightarrow> unit outcome \<times> world" where
  "close_quietly c w =
     (case close c w of
        (None, w1) \<Rightarrow> (Returns (), w1)
      | (Some e, w1) \<Rightarrow> if is_Exception e then (Returns (), w1) else (Raises e, w1))"

definition release :: "pool \<Rightarrow> conn \<Rightarrow> world \<Rightarrow> unit outcome \<times> pool \<times> world" where
  "release p connection w0 =
     (let w = emit (ReleaseCalled connection) w0 in
      if p_closed p then
        (case close_quietly connection w of (r, w1) \<Rightarrow> (r, p, w1))
      else
        case version connection w of
          (None, w1) \<Rightarrow>
            (case put connection p of
               None \<Rightarrow> (Blocks, p, w1)
             | Some p1 \<Rightarrow> (Returns (), p1, w1))
        | (Some e, w1) \<Rightarrow>
            if is_Exception e then
              (case close_quietly connection (emit (Logged WARNING) w1) of
                 (Returns u, w2) \<Rightarrow>
                   if int (length (p_available p)) < p_pool_size p then
                     (case create_connection p w2 of
                        (Returns new_connection, w3) \<Rightarrow>
                          (case put new_connection p of
                             None \<Rightarrow> (Blocks, p, w3)
                           | Some p1 \<Rightarrow> (Returns (), p1, w3))
                      | (Raises ce, w3) \<Rightarrow>
                          if is_Exception ce then (Returns (), p, emit (Logged ERROR) w3)
                          else (Raises ce, p, w3)
                      | (Blocks, w3) \<Rightarrow> (Blocks, p, w3))
                   else (Returns (), p, w2)
               | (r, w2) \<Rightarrow> (r, p, w2))
            else (Raises e, p, w1))"

text \<open>\<open>_execute_with_retry\<close> of the pool: the loop of \<open>execute_with_retry\<close> with the pool's policy.\<close>

definition pool_execute_with_retry ::
  "pool \<Rightarrow> (nat \<Rightarrow> 'a outcome) \<Rightarrow> conn \<Rightarrow> event list \<Rightarrow> 'a outcome \<times> event list" where
  "pool_execute_with_retry p operation connection tr =
     retry_loop (p_max_retries p) (p_retry_delay p) operation connection
       [0..p_max_retries p] 0 None tr"

text \<open>
  \<open>execute_with_connection\<close>, through the context manager \<open>connection()\<close>:
  \<^verbatim>\<open>conn = acquire(); try: yield conn; finally: release(conn)\<close>.  An operation that never returns
  never reaches the \<open>finally\<close>; an exception that escapes \<open>release\<close> replaces the body's outcome.
\<close>

definition execute_with_connection ::
  "pool \<Rightarrow> (nat \<Rightarrow> 'a outcome) \<Rightarrow> world \<Rightarrow> 'a outcome \<times> pool \<times> world" where
  "execute_with_connection p operation w =
     (case acquire p w of
        (Returns conn, p1, w1) \<Rightarrow>
          (case pool_execute_with_retry p1 operation conn (w_trace w1) of
             (Blocks, tr2) \<Rightarrow> (Blocks, p1, w1\<lparr>w_trace := tr2\<rparr>)
           | (r, tr2) \<Rightarrow>
               (case release p1 conn (w1\<lparr>w_trace := tr2\<rparr>) of
                  (Returns u, p2, w2) \<Rightarrow> (r, p2, w2)
                | (Raises e, p2, w2) \<Rightarrow> (Raises e, p2, w2)
                | (Blocks, p2, w2) \<Rightarrow> (Blocks, p2, w2)))
      | (Raises e, p1, w1) \<Rightarrow> (Raises e, p1, w1)
      | (Blocks, p1, w1) \<Rightarrow> (Blocks, p1, w1))"

text \<open>\<open>AsyncConnectionPool.close_all\<close>: the loop \<^verbatim>\<open>while not self._available.empty()\<close> over the
  queue's content, with the single handler \<^verbatim>\<open>except Exception\<close> around \<open>get()\<close> and \<open>close()\<close>, then
  \<^verbatim>\<open>self._pool.clear()\<close>.\<close>

fun drain :: "conn list \<Rightarrow> world \<Rightarrow> unit outcome \<times> conn list \<times> world" where
  "drain [] w = (Returns (), [], w)"
| "drain (connection # rest) w =
     (case close connection w of
        (None, w1) \<Rightarrow> drain rest w1
      | (Some e, w1) \<Rightarrow>
          if is_Exception e then drain rest (emit (Logged WARNING) w1)
          else (Raises e, rest, w1))"

definition close_all :: "pool \<Rightarrow> world \<Rightarrow> unit outcome \<times> pool \<times> world" where
  "close_all p w =
     (let p1 = p\<lparr>p_closed := True\<rparr> in
      case drain (p_available p1) w of
        (Returns u, q, w1) \<Rightarrow> (Returns (), p1\<lparr>p_available := q, p_pool := []\<rparr>, emit (Logged INFO) w1)
      | (r, q, w1) \<Rightarrow> (r, p1\<lparr>p_available := q\<rparr>, w1))"

text \<open>
  \<open>SyncConnectionPool.close_all\<close>: the same loop with \<open>get_nowait()\<close> and the handler
  \<^verbatim>\<open>except Empty: break\<close> before \<^verbatim>\<open>except Exception\<close>.  The \<open>try\<close> block holds \<open>get_nowait()\<close> and
  \<open>close()\<close>: in a sequential run \<open>get_nowait()\<close> on a non-empty queue does not raise, and a
  \<open>close()\<close> that raises \<open>queue.Empty\<close> leaves the loop, with the Connections behind it still in
  the queue.
\<close>

fun sync_drain :: "conn list \<Rightarrow> world \<Rightarrow> unit outcome \<times> conn list \<times> world" where
  "sync_drain [] w = (Returns (), [], w)"
| "sync_drain (connection # rest) w =
     (case close connection w of
        (None, w1) \<Rightarrow> sync_drain rest w1
      | (Some e, w1) \<Rightarrow>
          if exc_kind e = QueueEmpty then (Returns (), rest, w1)
          else if is_Exception e then sync_drain rest (emit (Logged WARNING) w1)
          else (Raises e, rest, w1))"

definition sync_close_all :: "pool \<Rightarrow> world \<Rightarrow> unit outcome \<times> pool \<times> world" where
  "sync_close_all p w =
     (let p1 = p\<lparr>p_closed := True\<rparr> in
      case sync_drain (p_available p1) w of
        (Returns u, q, w1) \<Rightarrow> (Returns (), p1\<lparr>p_available := q, p_pool := []\<rparr>, emit (Logged INFO) w1)
      | (r, q, w1) \<Rightarrow> (r, p1\<lparr>p_available := q\<rparr>, w1))"

text \<open>What the trace says about Connections.\<close>

fun closes :: "event list \<Rightarrow> conn list" where
  "closes [] = []"
| "closes (CloseCalled c # tr) = c # closes tr"
| "closes (ev # tr) = closes tr"

fun releases :: "event list \<Rightarrow> conn list" where
  "releases [] = []"
| "releases (ReleaseCalled c # tr) = c # releases tr"
| "releases (ev # tr) = releases tr"

fun created :: "event list \<Rightarrow> conn list" where
  "created [] = []"
| "created (Created c # tr) = c # created tr"
| "created (ev # tr) = created tr"

text \<open>
  Connection calls that fail with an \<open>Exception\<close> (not with a bare \<open>BaseException\<close>); a queue
  within the capacity that \<^verbatim>\<open>Queue(maxsize=pool_size)\<close> enforces; counters over the trace and over
  the answers of the environment to the next \<open>k\<close> calls.
\<close>

definition env_benign :: "world \<Rightarrow> bool" where
  "env_benign w = (\<forall>n e. w_env w n = Some e \<longrightarrow> is_Exception e)"

definition within_capacity :: "pool \<Rightarrow> bool" where
  "within_capacity p = (0 < p_pool_size p \<longrightarrow> int (length (p_available p)) \<le> p_pool_size p)"

fun warnings :: "event list \<Rightarrow> nat" where
  "warnings [] = 0"
| "warnings (Logged WARNING # tr) = Suc (warnings tr)"
| "warnings (ev # tr) = warnings tr"

definition failures :: "world \<Rightarrow> nat \<Rightarrow> nat" where
  "failures w k = length (filter (\<lambda>i. w_env w (w_tick w + i) \<noteq> None) [0..<k])"

definition successes :: "world \<Rightarrow> nat \<Rightarrow> nat" where
  "successes w k = length (filter (\<lambda>i. w_env w (w_tick w + i) = None) [0..<k])"

subsection \<open>Sequences of pool operations\<close>

text \<open>
  The public operations of a pool, run one after the other on the pool and the world (the
  outcome of each call is dropped).  A pool counts as initialised when its connection list is not
  empty or it is closed: these are the states in which \<open>acquire\<close> does not reach the creation loop
  of \<open>_initialize_pool\<close>.
\<close>

datatype pool_op =
    Acquire | Release conn | Execute "nat \<Rightarrow> unit outcome" | CloseAll | SyncCloseAll

fun pool_step :: "pool_op \<Rightarrow> pool \<times> world \<Rightarrow> pool \<times> world" where
  "pool_step Acquire (p, w) = snd (acquire p w)"
| "pool_step (Release c) (p, w) = snd (release p c w)"
| "pool_step (Execute operation) (p, w) = snd (execute_with_connection p operation w)"
| "pool_step CloseAll (p, w) = snd (close_all p w)"
| "pool_step SyncCloseAll (p, w) = snd (sync_close_all p w)"

definition pool_run :: "pool_op list \<Rightarrow> pool \<times> world \<Rightarrow> pool \<times> world" where
  "pool_run ops s = fold pool_step ops s"

definition initialised :: "pool \<Rightarrow> bool" where
  "initialised p = (p_pool p \<noteq> [] \<or> p_closed p)"

subsection \<open>Concurrent callers of \<open>_initialize_pool\<close>\<close>

text \<open>
  Several callers inside \<open>_initialize_pool\<close>, interleaved.  A caller waits for the lock
  (\<^verbatim>\<open>with self._lock\<close>), enters, tests \<^verbatim>\<open>if self._pool: return\<close> and otherwise runs the creation loop;
  each iteration is two steps (the creation with the append to the list, then the \<open>put\<close>, which
  waits while the queue is full).  Leaving the \<open>with\<close> block, by \<open>return\<close>, at the end of the
  loop or with an exception that is not caught, frees the lock.  A schedule is the list of the
  callers that take the next step; a caller that cannot move stays where it is.
\<close>

datatype init_pc = Waiting | Entered | Looping nat | Putting conn nat | Left

record init_system =
  sys_pool :: pool
  sys_world :: world
  sys_lock :: "nat option"
  sys_callers :: "init_pc list"

fun holds_lock :: "init_pc \<Rightarrow> bool" where
  "holds_lock Waiting = False"
| "holds_lock Entered = True"
| "holds_lock (Looping k) = True"
| "holds_lock (Putting c k) = True"
| "holds_lock Left = False"

definition move :: "nat \<Rightarrow> init_pc \<Rightarrow> init_system \<Rightarrow> init_system" where
  "move i pc S = S\<lparr>sys_callers := (sys_callers S)[i := pc]\<rparr>"

definition leave :: "nat \<Rightarrow> init_system \<Rightarrow> init_system" where
  "leave i S = S\<lparr>sys_lock := None, sys_callers := (sys_callers S)[i := Left]\<rparr>"

definition init_step :: "nat \<Rightarrow> init_system \<Rightarrow> init_system" where
  "init_step i S =
     (if length (sys_callers S) \<le> i then S
      else case sys_callers S ! i of
        Waiting \<Rightarrow> if sys_lock S = None then move i Entered (S\<lparr>sys_lock := Some i\<rparr>) else S
      | Entered \<Rightarrow>
          if p_pool (sys_pool S) \<noteq> [] then leave i S
          else move i (Looping (nat (p_pool_size (sys_pool S))))
                 (S\<lparr>sys_world := emit (Logged INFO) (sys_world S)\<rparr>)
      | Looping 0 \<Rightarrow> leave i S
      | Looping (Suc k) \<Rightarrow>
          (case create_connection (sys_pool S) (sys_world S) of
             (Returns c, w1) \<Rightarrow>
               move i (Putting c k)
                 (S\<lparr>sys_pool := (sys_pool S)\<lparr>p_pool := p_pool (sys_pool S) @ [c]\<rparr>, sys_world := w1\<rparr>)
           | (Raises e, w1) \<Rightarrow>
               if is_Exception e then move i (Looping k) (S\<lparr>sys_world := emit (Logged ERROR) w1\<rparr>)
               else leave i (S\<lparr>sys_world := w1\<rparr>)
           | (Blocks, w1) \<Rightarrow> S)
      | Putting c k \<Rightarrow>
          (case put c (sys_pool S) of
             None \<Rightarrow> S
           | Some p2 \<Rightarrow> move i (Looping k) (S\<lparr>sys_pool := p2\<rparr>))
      | Left \<Rightarrow> S)"

definition init_run :: "nat list \<Rightarrow> init_system \<Rightarrow> init_system" where
  "init_run schedule S = fold init_step schedule S"

text \<open>The lock is held by exactly the callers between entering and leaving; the number of runs
  of the creation loop is the number of its INFO records (nothing else logs at that level here).\<close>

definition lock_inv :: "init_system \<Rightarrow> bool" where
  "lock_inv S =
     (\<forall>i. i < length (sys_callers S) \<longrightarrow> holds_lock (sys_callers S ! i) = (sys_lock S = Some i))"

fun init_runs :: "event list \<Rightarrow> nat" where
  "init_runs [] = 0"
| "init_runs (Logged INFO # tr) = Suc (init_runs tr)"
| "init_runs (ev # tr) = init_runs tr"

definition init_start :: "pool \<Rightarrow> world \<Rightarrow> nat \<Rightarrow> init_system" where
  "init_start p w n = \<lparr>sys_pool = p, sys_world = w, sys_lock = None, sys_callers = replicate n Waiting\<rparr>"

section \<open>Transaction scopes (\<^verbatim>\<open>connections/transaction.py\<close>)\<close>

text \<open>\<open>AsyncTransaction\<close> and \<open>SyncTransaction\<close>: the bound Connection and the flag
  \<open>_in_transaction\<close>.\<close>

record transaction =
  tx_connection :: conn
  in_transaction :: bool

definition transaction_new :: "conn \<Rightarrow> transaction" where
  "transaction_new c = \<lparr>tx_connection = c, in_transaction = False\<rparr>"

definition tx_enter :: "transaction \<Rightarrow> world \<Rightarrow> unit outcome \<times> transaction \<times> world" where
  "tx_enter tx w =
     (case call (BeginCalled (tx_connection tx)) w of
        (None, w1) \<Rightarrow> (Returns (), tx\<lparr>in_transaction := True\<rparr>, w1)
      | (Some e, w1) \<Rightarrow> (Raises e, tx, w1))"

text \<open>\<open>__aexit__\<close> / \<open>__exit__\<close>: \<open>exc\<close> is the exception of the body, \<open>None\<close> when \<open>exc_type\<close> is
  \<open>None\<close>.  The \<open>finally\<close> clause resets the flag whether or not the call raised.  The method
  returns \<open>None\<close>, so it never suppresses an exception.\<close>

definition tx_exit :: "transaction \<Rightarrow> exc option \<Rightarrow> world \<Rightarrow> unit outcome \<times> transaction \<times> world" where
  "tx_exit tx exc w =
     (if \<not> in_transaction tx then (Returns (), tx, w)
      else
        case (case exc of
                None \<Rightarrow> call (CommitCalled (tx_connection tx)) w
              | Some e \<Rightarrow> call (RollbackCalled (tx_connection tx)) w) of
          (None, w1) \<Rightarrow> (Returns (), tx\<lparr>in_transaction := False\<rparr>, w1)
        | (Some e', w1) \<Rightarrow> (Raises e', tx\<lparr>in_transaction := False\<rparr>, w1))"

text \<open>
  The statement \<^verbatim>\<open>with tx: body\<close>.  If entering raises, the body does not run.  After the
  body, the exit method is called with the body's exception, if any; an exception raised by the
  exit method propagates in place of the body's, and as the exit method returns \<open>None\<close> the body's
  exception is re-raised otherwise.
\<close>

definition transaction_scope ::
  "transaction \<Rightarrow> (world \<Rightarrow> 'a outcome \<times> world) \<Rightarrow> world \<Rightarrow> 'a outcome \<times> transaction \<times> world" where
  "transaction_scope tx body w =
     (case tx_enter tx w of
        (Returns u, tx1, w1) \<Rightarrow>
          (case body w1 of
             (Returns v, w2) \<Rightarrow>
               (case tx_exit tx1 None w2 of
                  (Returns u', tx2, w3) \<Rightarrow> (Returns v, tx2, w3)
                | (Raises e', tx2, w3) \<Rightarrow> (Raises e', tx2, w3)
                | (Blocks, tx2, w3) \<Rightarrow> (Blocks, tx2, w3))
           | (Raises e, w2) \<Rightarrow>
               (case tx_exit tx1 (Some e) w2 of
                  (Returns u', tx2, w3) \<Rightarrow> (Raises e, tx2, w3)
                | (Raises e', tx2, w3) \<Rightarrow> (Raises e', tx2, w3)
                | (Blocks, tx2, w3) \<Rightarrow> (Blocks, tx2, w3))
           | (Blocks, w2) \<Rightarrow> (Blocks, tx1, w2))
      | (Raises e, tx1, w1) \<Rightarrow> (Raises e, tx1, w1)
      | (Blocks, tx1, w1) \<Rightarrow> (Blocks, tx1, w1))"

section \<open>Concrete runs\<close>

text \<open>Small configurations, environments and operations on which the properties below are
  evaluated.\<close>

definition boom :: exc where
  "boom = Exc OtherException ''boom'' None"

definition flaky :: "nat \<Rightarrow> int outcome" where
  "flaky n = (if n < 2 then Raises boom else Returns 42)"

definition single3 :: single_connection where
  "single3 = \<lparr>sc_connection = 0, sc_max_retries = 3, sc_retry_delay = 1\<rparr>"

definition pool3 :: pool where
  "pool3 = \<lparr>p_url = ''ws://db'', p_namespace = ''ns'', p_database = ''db'', p_auth_params = [],
     p_pool_size = 1, p_max_retries = 3, p_retry_delay = 1, p_pool = [], p_available = [],
     p_closed = False, p_connection_class = WsSurrealConnection\<rparr>"

definition rollback_failed :: exc where
  "rollback_failed = Exc OtherException ''rollback failed'' None"

definition calm :: world where
  "calm = \<lparr>w_env = (\<lambda>n. None), w_tick = 0, w_fresh = 0, w_trace = []\<rparr>"

definition rollback_fails :: world where
  "rollback_fails = \<lparr>w_env = (\<lambda>n. if n = 1 then Some rollback_failed else None), w_tick = 0,
     w_fresh = 0, w_trace = []\<rparr>"

definition body_ok :: "world \<Rightarrow> int outcome \<times> world" where
  "body_ok w = (Returns 7, w)"

definition body_raises :: "world \<Rightarrow> int outcome \<times> world" where
  "body_raises w = (Raises boom, w)"

definition storm :: world where
  "storm = \<lparr>w_env = (\<lambda>n. Some boom), w_tick = 0, w_fresh = 0, w_trace = []\<rparr>"

definition probe_fails :: world where
  "probe_fails = \<lparr>w_env = (\<lambda>n. if n = 1 then Some boom else None), w_tick = 0, w_fresh = 0,
     w_trace = []\<rparr>"

definition only_first_ok :: world where
  "only_first_ok = \<lparr>w_env = (\<lambda>n. if n = 0 then None else Some boom), w_tick = 0, w_fresh = 0,
     w_trace = []\<rparr>"

definition closed_pool3 :: pool where
  "closed_pool3 = pool3\<lparr>p_closed := True\<rparr>"

definition pool3_zero :: pool where
  "pool3_zero = pool3\<lparr>p_pool := [0], p_available := []\<rparr>"

definition pool_two :: pool where
  "pool_two = pool3\<lparr>p_pool_size := 2, p_pool := [0, 1], p_available := [0, 1]\<rparr>"

definition pool_three :: pool where
  "pool_three = pool3\<lparr>p_pool_size := 3\<rparr>"

definition url_scheme_stub :: "string \<Rightarrow> exc + UrlScheme" where
  "url_scheme_stub url =
     (if url = ''ftp://db'' then Inr (OtherScheme ''FTP'')
      else if url = ''gopher://db'' then Inl (raise_new ValueError ''not a valid UrlScheme'')
      else Inr WS)"

definition first_close_queue_empty :: world where
  "first_close_queue_empty =
     \<lparr>w_env = (\<lambda>n. if n = 0 then Some (Exc QueueEmpty [] None) else None), w_tick = 0,
      w_fresh = 2, w_trace = []\<rparr>"

section \<open>Properties of bulk results\<close>

text \<open>
  C10.  For every \<open>BulkResult\<close>, \<open>total_count\<close> is \<open>success_count + error_count\<close>, and
  \<open>success_rate\<close> always returns a value: \<open>0.0\<close> when \<open>total_count\<close> is zero (the division is
  not reached), and \<open>success_count / total_count * 100.0\<close> otherwise.  The float arithmetic is
  read over the reals.
\<close>

theorem bulk_result_success_rate:
  "total_count b = success_count b + error_count b \<and>
   success_rate b =
     Inr (if total_count b = 0 then 0
          else real_of_int (success_count b) / real_of_int (total_count b) * 100.0)"
  by (simp add: total_count_def success_rate_def py_truediv_def)

section \<open>Properties of the filter translation\<close>

lemma filter_loop_map: "filter_loop kvs acc = acc @ map filter_condition kvs"
  by (induction kvs arbitrary: acc) auto

lemma endswith_rev: "endswith key suf = (take (length suf) (rev key) = rev suf)"
proof (cases "length suf \<le> length key")
  case True
  then show ?thesis
    by (auto simp: endswith_def take_rev rev_swap)
next
  case False
  then have "length (take (length suf) (rev key)) \<noteq> length (rev suf)" by simp
  then have "take (length suf) (rev key) \<noteq> rev suf" by metis
  with False show ?thesis by (simp add: endswith_def)
qed

lemma drop_last_append: "length suf = n \<Longrightarrow> drop_last n (f @ suf) = f"
  by (simp add: drop_last_def)

lemma build_filter_query_nonempty:
  "kvs \<noteq> [] \<Longrightarrow>
   build_filter_query table kvs =
     ''SELECT * FROM '' @ table @ '' WHERE '' @ join '' AND '' (map filter_condition kvs)"
  by (simp add: build_filter_query_def filter_loop_map)

lemma condition_gte: "filter_condition (f @ ''__gte'', v) = f @ '' >= '' @ repr v"
  by (simp add: filter_condition_def endswith_rev drop_last_append)

lemma condition_lte: "filter_condition (f @ ''__lte'', v) = f @ '' <= '' @ repr v"
  by (simp add: filter_condition_def endswith_rev drop_last_append)

lemma condition_gt: "filter_condition (f @ ''__gt'', v) = f @ '' > '' @ repr v"
  by (simp add: filter_condition_def endswith_rev drop_last_append)

lemma condition_lt: "filter_condition (f @ ''__lt'', v) = f @ '' < '' @ repr v"
  by (simp add: filter_condition_def endswith_rev drop_last_append)

lemma condition_ne: "filter_condition (f @ ''__ne'', v) = f @ '' != '' @ repr v"
  by (simp add: filter_condition_def endswith_rev drop_last_append)

lemma condition_contains:
  "filter_condition (f @ ''__contains'', v) = f @ '' CONTAINS '' @ repr v"
  by (simp add: filter_condition_def endswith_rev drop_last_append)

lemma condition_in_list:
  "filter_condition (f @ ''__in'', PyList vs) = f @ '' IN ['' @ join '', '' (map repr vs) @ '']''"
  by (simp add: filter_condition_def endswith_rev drop_last_append)

lemma condition_in_tuple:
  "filter_condition (f @ ''__in'', PyTuple vs) = f @ '' IN ['' @ join '', '' (map repr vs) @ '']''"
  by (simp add: filter_condition_def endswith_rev drop_last_append)

lemma condition_in_scalar:
  "(\<forall>vs. v \<noteq> PyList vs \<and> v \<noteq> PyTuple vs) \<Longrightarrow>
   filter_condition (f @ ''__in'', v) = f @ '' = '' @ repr v"
  by (cases v) (simp_all add: filter_condition_def endswith_rev drop_last_append)

lemma condition_plain:
  "\<not> endswith key ''__gte'' \<Longrightarrow> \<not> endswith key ''__lte'' \<Longrightarrow> \<not> endswith key ''__gt'' \<Longrightarrow>
   \<not> endswith key ''__lt'' \<Longrightarrow> \<not> endswith key ''__ne'' \<Longrightarrow> \<not> endswith key ''__in'' \<Longrightarrow>
   \<not> endswith key ''__contains'' \<Longrightarrow>
   filter_condition (key, v) = key @ '' = '' @ repr v"
  by (simp add: filter_condition_def)

lemma repr_str_quoted:
  "\<exists>q body. (q = CHR 0x27 \<or> q = CHR 0x22) \<and> repr (PyStr s) = [q] @ body @ [q]"
  by (auto simp: repr_str_def repr_quote_def Let_def)

text \<open>
  C8, as the code has it.  The translation of a non-empty filter mapping is
  \<open>SELECT * FROM table WHERE c1 AND ... AND cn\<close>, one condition per item in the iteration order of
  the mapping (an empty mapping gives \<open>SELECT * FROM table\<close>).  A key with suffix \<open>__gte\<close>,
  \<open>__lte\<close>, \<open>__gt\<close>, \<open>__lt\<close>, \<open>__ne\<close> or \<open>__contains\<close> gives \<open>>=\<close>, \<open><=\<close>, \<open>>\<close>, \<open><\<close>, \<open>!=\<close>
  or \<open>CONTAINS\<close> whatever the value is, and a key with none of the suffixes gives equality.  A key
  with suffix \<open>__in\<close> gives the membership test \<open>field IN [...]\<close> when the value is a list or a
  tuple, and equality \<open>field = value\<close> for every other value.  String values are quoted.
  \<open>{"age__gte": 18, "name": "Bob"}\<close> gives \<open>WHERE age >= 18 AND name = 'Bob'\<close>.
\<close>

theorem build_filter_query_translation:
  "build_filter_query table [] = ''SELECT * FROM '' @ table \<and>
   (kvs \<noteq> [] \<longrightarrow>
      build_filter_query table kvs =
        ''SELECT * FROM '' @ table @ '' WHERE '' @ join '' AND '' (map filter_condition kvs)) \<and>
   filter_condition (f @ ''__gte'', v) = f @ '' >= '' @ repr v \<and>
   filter_condition (f @ ''__lte'', v) = f @ '' <= '' @ repr v \<and>
   filter_condition (f @ ''__gt'', v) = f @ '' > '' @ repr v \<and>
   filter_condition (f @ ''__lt'', v) = f @ '' < '' @ repr v \<and>
   filter_condition (f @ ''__ne'', v) = f @ '' != '' @ repr v \<and>
   filter_condition (f @ ''__contains'', v) = f @ '' CONTAINS '' @ repr v \<and>
   filter_condition (f @ ''__in'', PyList vs) =
     f @ '' IN ['' @ join '', '' (map repr vs) @ '']'' \<and>
   filter_condition (f @ ''__in'', PyTuple vs) =
     f @ '' IN ['' @ join '', '' (map repr vs) @ '']'' \<and>
   ((\<forall>us. w \<noteq> PyList us \<and> w \<noteq> PyTuple us) \<longrightarrow>
      filter_condition (f @ ''__in'', w) = f @ '' = '' @ repr w) \<and>
   (\<not> endswith key ''__gte'' \<and> \<not> endswith key ''__lte'' \<and> \<not> endswith key ''__gt'' \<and>
    \<not> endswith key ''__lt'' \<and> \<not> endswith key ''__ne'' \<and> \<not> endswith key ''__in'' \<and>
    \<not> endswith key ''__contains'' \<longrightarrow>
      filter_condition (key, v) = key @ '' = '' @ repr v) \<and>
   (\<exists>q body. (q = CHR 0x27 \<or> q = CHR 0x22) \<and> repr (PyStr s) = [q] @ body @ [q]) \<and>
   build_filter_query table [(''age__gte'', PyInt 18), (''name'', PyStr ''Bob'')] =
     ''SELECT * FROM '' @ table @ '' WHERE age >= 18 AND name = '' @ [CHR 0x27] @ ''Bob'' @ [CHR 0x27]"
proof -
  have example:
    "build_filter_query table [(''age__gte'', PyInt 18), (''name'', PyStr ''Bob'')] =
       ''SELECT * FROM '' @ table @ '' WHERE age >= 18 AND name = '' @ [CHR 0x27] @ ''Bob'' @ [CHR 0x27]"
    by (simp add: build_filter_query_def filter_condition_def endswith_def drop_last_def
        str_int_def str_nat.simps repr_str_def repr_quote_def repr_char_def printable_def Let_def)
  have empty: "build_filter_query table [] = ''SELECT * FROM '' @ table"
    by (simp add: build_filter_query_def)
  show ?thesis
    using example empty build_filter_query_nonempty [of kvs table] condition_gte [of f v]
      condition_lte [of f v] condition_gt [of f v] condition_lt [of f v] condition_ne [of f v]
      condition_contains [of f v] condition_in_list [of f vs] condition_in_tuple [of f vs]
      condition_in_scalar [of w f] condition_plain [of key v] repr_str_quoted [of s]
    by blast
qed

theorem build_filter_query_translation_witness:
  "[(''age__in'', PyInt 5), (''name'', PyStr ''Bob'')] \<noteq> [] \<and>
   build_filter_query ''users'' [(''age__in'', PyInt 5), (''name'', PyStr ''Bob'')] =
     ''SELECT * FROM users WHERE '' @
       join '' AND '' (map filter_condition [(''age__in'', PyInt 5), (''name'', PyStr ''Bob'')]) \<and>
   (\<forall>us. PyInt 5 \<noteq> PyList us \<and> PyInt 5 \<noteq> PyTuple us) \<and>
   filter_condition (''age__in'', PyInt 5) = ''age = 5'' \<and>
   \<not> endswith ''name'' ''__gte'' \<and> \<not> endswith ''name'' ''__lte'' \<and> \<not> endswith ''name'' ''__gt'' \<and>
   \<not> endswith ''name'' ''__lt'' \<and> \<not> endswith ''name'' ''__ne'' \<and> \<not> endswith ''name'' ''__in'' \<and>
   \<not> endswith ''name'' ''__contains'' \<and>
   filter_condition (''name'', PyStr ''Bob'') = ''name = '' @ repr (PyStr ''Bob'')"
  using build_filter_query_translation
    [of "''users''" "[(''age__in'', PyInt 5), (''name'', PyStr ''Bob'')]" "''age''" "PyStr ''Bob''"
      "[]" "PyInt 5" "''name''" "[]"]
  by (simp add: endswith_def str_int_def str_nat.simps)

text \<open>
  The claim as stated: the suffix \<open>__in\<close> is translated to a set-membership test independently of
  the value's type.  With the value \<open>5\<close> the code emits an equality test instead.
\<close>

theorem build_filter_query_in_counterexample:
  "build_filter_query ''users'' [(''age__in'', PyInt 5)] = ''SELECT * FROM users WHERE age = 5'' \<and>
   build_filter_query ''users'' [(''age__in'', PyList [PyInt 5])] =
     ''SELECT * FROM users WHERE age IN [5]''"
  by (simp add: build_filter_query_def filter_condition_def endswith_def drop_last_def
      str_int_def str_nat.simps)

section \<open>Properties of the retry loop\<close>

lemma invocations_append: "invocations (xs @ ys) = invocations xs + invocations ys"
  by (induction xs rule: invocations.induct) auto

lemma sleeps_append: "sleeps (xs @ ys) = sleeps xs @ sleeps ys"
  by (induction xs rule: sleeps.induct) auto

lemma invocations_rounds:
  "invocations (concat (map (failed_round d c) is)) = length is"
  by (induction "is") (auto simp: failed_round_def)

lemma sleeps_rounds:
  "sleeps (concat (map (failed_round d c) is)) = map (\<lambda>i. d * 2 ^ i) is"
  by (induction "is") (auto simp: failed_round_def)

lemma retry_loop_bound:
  "invocations (snd (retry_loop mr d op c xs n lst tr)) \<le> invocations tr + length xs"
proof (induction xs arbitrary: n lst tr)
  case Nil
  then show ?case by simp
next
  case (Cons a xs)
  show ?case
  proof (cases "op n")
    case (Returns v)
    then show ?thesis by (simp add: invocations_append)
  next
    case (Raises e)
    then show ?thesis
      using Cons.IH [of "Suc n" "Some e" "tr @ [Invoked c, Logged WARNING, Slept (d * 2 ^ nat a)]"]
        Cons.IH [of "Suc n" "Some e" "tr @ [Invoked c, Logged ERROR]"]
      by (simp add: invocations_append)
  next
    case Blocks
    then show ?thesis by (simp add: invocations_append)
  qed
qed

lemma retry_loop_success:
  assumes "\<forall>i. a \<le> i \<and> i < k \<longrightarrow> (\<exists>e. op i = Raises e \<and> is_Exception e)"
    and "op k = Returns v" and "a \<le> k" and "int k \<le> mr"
  shows "retry_loop mr d op c [int a..mr] a lst tr =
           (Returns v, tr @ concat (map (failed_round d c) [a..<k]) @ [Invoked c])"
  using assms
proof (induction "k - a" arbitrary: a lst tr)
  case 0
  then have "a = k" by simp
  moreover have "[int k..mr] = int k # [int k + 1..mr]"
    using 0 by (simp add: upto_rec1)
  ultimately show ?case using 0 by simp
next
  case (Suc m)
  then have lt: "a < k" by simp
  then obtain e where e: "op a = Raises e" "is_Exception e"
    using Suc.prems(1) by blast
  have up: "[int a..mr] = int a # [int (Suc a)..mr]"
    using lt Suc.prems(4) by (simp add: upto_rec1)
  have amr: "int a < mr" using lt Suc.prems(4) by simp
  have IH: "retry_loop mr d op c [int (Suc a)..mr] (Suc a) (Some e)
              (tr @ failed_round d c a) =
            (Returns v, (tr @ failed_round d c a) @ concat (map (failed_round d c) [Suc a..<k]) @ [Invoked c])"
    using Suc.hyps(1) [of "Suc a"] Suc.hyps(2) Suc.prems lt by simp
  have "[a..<k] = a # [Suc a..<k]" using lt by (simp add: upt_rec)
  then show ?case
    using e up amr IH by (simp add: failed_round_def)
qed

lemma retry_loop_exhausted:
  assumes "\<forall>i. a \<le> i \<and> i \<le> nat mr \<longrightarrow> (\<exists>e. op i = Raises e \<and> is_Exception e)"
    and "int a \<le> mr" and "op (nat mr) = Raises e"
  shows "retry_loop mr d op c [int a..mr] a lst tr =
           (Raises (raise_from ConnectionError
                     (''Operation failed after '' @ str_int (mr + 1) @ '' attempts'') (Some e)),
            tr @ concat (map (failed_round d c) [a..<nat mr]) @ [Invoked c, Logged ERROR])"
  using assms
proof (induction "nat mr - a" arbitrary: a lst tr)
  case 0
  then have a: "int a = mr" "a = nat mr" by auto
  have "[int a..mr] = [mr]" using a by (simp add: upto_rec1)
  then show ?case using 0 a is_Exception_def by (auto)
next
  case (Suc m)
  then have lt: "a < nat mr" by simp
  then obtain e' where e': "op a = Raises e'" "is_Exception e'"
    using Suc.prems(1) by (metis less_or_eq_imp_le order_refl)
  have up: "[int a..mr] = int a # [int (Suc a)..mr]"
    using lt by (simp add: upto_rec1)
  have amr: "int a < mr" using lt by simp
  have IH: "retry_loop mr d op c [int (Suc a)..mr] (Suc a) (Some e')
              (tr @ failed_round d c a) =
            (Raises (raise_from ConnectionError
                     (''Operation failed after '' @ str_int (mr + 1) @ '' attempts'') (Some e)),
             (tr @ failed_round d c a) @ concat (map (failed_round d c) [Suc a..<nat mr]) @ [Invoked c, Logged ERROR])"
    using Suc.hyps(1) [of "Suc a"] Suc.hyps(2) Suc.prems lt by simp
  have "[a..<nat mr] = a # [Suc a..<nat mr]" using lt by (simp add: upt_rec)
  then show ?case
    using e' up amr IH by (simp add: failed_round_def)
qed


lemma retry_run_bound:
  "invocations (snd (retry_loop mr d op c [0..mr] 0 None [])) \<le> nat (mr + 1)"
  using retry_loop_bound [of mr d op c "[0..mr]" 0 None "[]"] by simp

lemma retry_run_success:
  assumes "\<forall>i<k. \<exists>e. op i = Raises e \<and> is_Exception e" and "op k = Returns v" and "int k \<le> mr"
  shows "fst (retry_loop mr d op c [0..mr] 0 None []) = Returns v \<and>
         sleeps (snd (retry_loop mr d op c [0..mr] 0 None [])) = map (\<lambda>i. d * 2 ^ i) [0..<k] \<and>
         invocations (snd (retry_loop mr d op c [0..mr] 0 None [])) = k + 1"
proof -
  have "retry_loop mr d op c [int 0..mr] 0 None [] =
          (Returns v, [] @ concat (map (failed_round d c) [0..<k]) @ [Invoked c])"
    by (rule retry_loop_success) (use assms in auto)
  then show ?thesis
    by (simp add: sleeps_append invocations_append sleeps_rounds invocations_rounds)
qed

lemma retry_run_exhausted:
  assumes "0 \<le> mr" and "\<forall>i\<le>nat mr. \<exists>e. op i = Raises e \<and> is_Exception e"
  shows "(\<exists>e msg. op (nat mr) = Raises e \<and>
            fst (retry_loop mr d op c [0..mr] 0 None []) = Raises (Exc ConnectionError msg (Some e))) \<and>
         sleeps (snd (retry_loop mr d op c [0..mr] 0 None [])) = map (\<lambda>i. d * 2 ^ i) [0..<nat mr] \<and>
         invocations (snd (retry_loop mr d op c [0..mr] 0 None [])) = nat mr + 1"
proof -
  obtain e where e: "op (nat mr) = Raises e" using assms(2) by blast
  have "retry_loop mr d op c [int 0..mr] 0 None [] =
          (Raises (raise_from ConnectionError
                     (''Operation failed after '' @ str_int (mr + 1) @ '' attempts'') (Some e)),
            [] @ concat (map (failed_round d c) [0..<nat mr]) @ [Invoked c, Logged ERROR])"
    by (rule retry_loop_exhausted) (use assms e in auto)
  then show ?thesis using e
    by (simp add: sleeps_append invocations_append sleeps_rounds invocations_rounds raise_from_def)
qed


text \<open>
  C1.  \<open>execute_with_retry\<close> (of the single connections) and \<open>_execute_with_retry\<close> (of the
  pools) invoke the operation at most \<open>max_retries + 1\<close> times.  If the first \<open>k\<close> invocations
  raise an \<open>Exception\<close>, the next one returns \<open>v\<close> and \<open>k <= max_retries\<close>, the call returns \<open>v\<close>
  after \<open>k + 1\<close> invocations and the sleeps \<open>base * 2^0, ..., base * 2^(k-1)\<close>.  If all of the
  \<open>max_retries + 1\<close> invocations raise an \<open>Exception\<close>, the call raises a \<open>ConnectionError\<close> whose
  cause is the exception of the last invocation, after the sleeps
  \<open>base * 2^0, ..., base * 2^(max_retries - 1)\<close>.  \<open>max_retries\<close> is a Python int: when
  \<open>max_retries + 1\<close> is not positive the range is empty and the operation is not invoked at all.
\<close>

theorem execute_with_retry_backoff:
  "invocations (snd (execute_with_retry sc op [])) \<le> nat (sc_max_retries sc + 1) \<and>
   ((\<forall>i<k. \<exists>e. op i = Raises e \<and> is_Exception e) \<and> op k = Returns v \<and>
    int k \<le> sc_max_retries sc \<longrightarrow>
      fst (execute_with_retry sc op []) = Returns v \<and>
      sleeps (snd (execute_with_retry sc op [])) = map (\<lambda>i. sc_retry_delay sc * 2 ^ i) [0..<k] \<and>
      invocations (snd (execute_with_retry sc op [])) = k + 1) \<and>
   (0 \<le> sc_max_retries sc \<and>
    (\<forall>i\<le>nat (sc_max_retries sc). \<exists>e. op i = Raises e \<and> is_Exception e) \<longrightarrow>
      (\<exists>e msg. op (nat (sc_max_retries sc)) = Raises e \<and>
         fst (execute_with_retry sc op []) = Raises (Exc ConnectionError msg (Some e))) \<and>
      sleeps (snd (execute_with_retry sc op [])) =
        map (\<lambda>i. sc_retry_delay sc * 2 ^ i) [0..<nat (sc_max_retries sc)] \<and>
      invocations (snd (execute_with_retry sc op [])) = nat (sc_max_retries sc) + 1) \<and>
   invocations (snd (pool_execute_with_retry p op c [])) \<le> nat (p_max_retries p + 1) \<and>
   ((\<forall>i<k. \<exists>e. op i = Raises e \<and> is_Exception e) \<and> op k = Returns v \<and>
    int k \<le> p_max_retries p \<longrightarrow>
      fst (pool_execute_with_retry p op c []) = Returns v \<and>
      sleeps (snd (pool_execute_with_retry p op c [])) = map (\<lambda>i. p_retry_delay p * 2 ^ i) [0..<k] \<and>
      invocations (snd (pool_execute_with_retry p op c [])) = k + 1) \<and>
   (0 \<le> p_max_retries p \<and>
    (\<forall>i\<le>nat (p_max_retries p). \<exists>e. op i = Raises e \<and> is_Exception e) \<longrightarrow>
      (\<exists>e msg. op (nat (p_max_retries p)) = Raises e \<and>
         fst (pool_execute_with_retry p op c []) = Raises (Exc ConnectionError msg (Some e))) \<and>
      sleeps (snd (pool_execute_with_retry p op c [])) =
        map (\<lambda>i. p_retry_delay p * 2 ^ i) [0..<nat (p_max_retries p)] \<and>
      invocations (snd (pool_execute_with_retry p op c [])) = nat (p_max_retries p) + 1)"
  unfolding execute_with_retry_def pool_execute_with_retry_def
  using retry_run_bound [of "sc_max_retries sc" "sc_retry_delay sc" op "sc_connection sc"]
    retry_run_success [of k op v "sc_max_retries sc" "sc_retry_delay sc" "sc_connection sc"]
    retry_run_exhausted [of "sc_max_retries sc" op "sc_retry_delay sc" "sc_connection sc"]
    retry_run_bound [of "p_max_retries p" "p_retry_delay p" op c]
    retry_run_success [of k op v "p_max_retries p" "p_retry_delay p" c]
    retry_run_exhausted [of "p_max_retries p" op "p_retry_delay p" c]
  by blast

lemma flaky_fails: "\<forall>i<2. \<exists>e. flaky i = Raises e \<and> is_Exception e"
  by (simp add: flaky_def boom_def is_Exception_def)


theorem execute_with_retry_backoff_witness:
  "invocations (snd (execute_with_retry single3 flaky [])) \<le> nat (sc_max_retries single3 + 1) \<and>
   flaky 0 = Raises boom \<and> flaky 1 = Raises boom \<and> is_Exception boom \<and> flaky 2 = Returns 42 \<and>
   int 2 \<le> sc_max_retries single3 \<and>
   fst (execute_with_retry single3 flaky []) = Returns 42 \<and>
   sleeps (snd (execute_with_retry single3 flaky [])) = [1, 2] \<and>
   invocations (snd (execute_with_retry single3 flaky [])) = 3 \<and>
   0 \<le> sc_max_retries single3 \<and>
   (\<exists>msg. fst (execute_with_retry single3 (\<lambda>n. Raises boom :: int outcome) []) =
       Raises (Exc ConnectionError msg (Some boom))) \<and>
   sleeps (snd (execute_with_retry single3 (\<lambda>n. Raises boom :: int outcome) [])) = [1, 2, 4] \<and>
   invocations (snd (execute_with_retry single3 (\<lambda>n. Raises boom :: int outcome) [])) = 4"
proof -
  have a: "flaky 2 = Returns 42" by (simp add: flaky_def)
  have b: "int 2 \<le> sc_max_retries single3" "0 \<le> sc_max_retries single3"
    by (simp_all add: single3_def)
  have s0: "invocations (snd (execute_with_retry single3 flaky [])) \<le> nat (sc_max_retries single3 + 1)"
    using execute_with_retry_backoff [of single3 flaky 2 42 pool3 0] by blast
  have c: "\<forall>i\<le>nat (sc_max_retries single3). \<exists>e. (\<lambda>n. Raises boom :: int outcome) i = Raises e \<and> is_Exception e"
    by (simp add: boom_def is_Exception_def)
  have l2: "[0..<2] = [0, 1::nat]" by code_simp
  have l3: "[0..<3] = [0, 1, 2::nat]" by code_simp
  have d: "sc_retry_delay single3 = 1" "nat (sc_max_retries single3) = 3" by (simp_all add: single3_def)
  have s1: "fst (execute_with_retry single3 flaky []) = Returns 42 \<and>
      sleeps (snd (execute_with_retry single3 flaky [])) = map (\<lambda>i. sc_retry_delay single3 * 2 ^ i) [0..<2] \<and>
      invocations (snd (execute_with_retry single3 flaky [])) = 2 + 1"
    using execute_with_retry_backoff [of single3 flaky 2 42 pool3 0] flaky_fails a b by blast
  have s2: "(\<exists>e msg. (\<lambda>n. Raises boom :: int outcome) (nat (sc_max_retries single3)) = Raises e \<and>
         fst (execute_with_retry single3 (\<lambda>n. Raises boom :: int outcome) []) = Raises (Exc ConnectionError msg (Some e))) \<and>
      sleeps (snd (execute_with_retry single3 (\<lambda>n. Raises boom :: int outcome) [])) =
        map (\<lambda>i. sc_retry_delay single3 * 2 ^ i) [0..<nat (sc_max_retries single3)] \<and>
      invocations (snd (execute_with_retry single3 (\<lambda>n. Raises boom :: int outcome) [])) = nat (sc_max_retries single3) + 1"
    using execute_with_retry_backoff [of single3 "\<lambda>n. Raises boom" 0 0 pool3 0] b c by blast
  from s2 have s3: "\<exists>msg. fst (execute_with_retry single3 (\<lambda>n. Raises boom :: int outcome) []) =
       Raises (Exc ConnectionError msg (Some boom))" by auto
  have f: "flaky 0 = Raises boom" "flaky 1 = Raises boom" "is_Exception boom"
    by (simp_all add: flaky_def boom_def is_Exception_def)
  show ?thesis
    using s0 s1 s2 s3 a b f by (simp add: l2 l3 d)
qed

section \<open>Properties of transaction scopes\<close>

lemma tx_enter_Returns:
  "tx_enter tx w = (Returns u, tx1, w1) \<Longrightarrow>
   in_transaction tx1 \<and> tx_connection tx1 = tx_connection tx"
  by (auto simp: tx_enter_def call_def split: option.splits)

lemma tx_exit_commit:
  "in_transaction tx \<Longrightarrow>
   tx_exit tx None w =
     ((case w_env w (w_tick w) of None \<Rightarrow> Returns () | Some e' \<Rightarrow> Raises e'),
      tx\<lparr>in_transaction := False\<rparr>,
      w\<lparr>w_tick := Suc (w_tick w), w_trace := w_trace w @ [CommitCalled (tx_connection tx)]\<rparr>)"
  by (simp add: tx_exit_def call_def split: option.splits)

lemma tx_exit_rollback:
  "in_transaction tx \<Longrightarrow>
   tx_exit tx (Some e) w =
     ((case w_env w (w_tick w) of None \<Rightarrow> Returns () | Some e' \<Rightarrow> Raises e'),
      tx\<lparr>in_transaction := False\<rparr>,
      w\<lparr>w_tick := Suc (w_tick w), w_trace := w_trace w @ [RollbackCalled (tx_connection tx)]\<rparr>)"
  by (simp add: tx_exit_def call_def split: option.splits)

text \<open>
  C2, as the code has it.  For a scope that was entered: if the body completes, the exit issues
  exactly \<open>commit_transaction()\<close> and the body's result is returned when the commit succeeds.
  If the body raises \<open>e\<close>, the exit issues exactly \<open>rollback_transaction()\<close>; when the rollback
  succeeds \<open>e\<close> itself is re-raised, and when the rollback raises \<open>e'\<close> it is \<open>e'\<close> that reaches
  the caller.
\<close>

theorem transaction_scope_exit:
  assumes "tx_enter tx w = (Returns (), tx1, w1)" and "body w1 = (b, w2)"
  shows
   "(b = Returns v \<longrightarrow>
       w_trace (snd (snd (transaction_scope tx body w))) =
         w_trace w2 @ [CommitCalled (tx_connection tx)] \<and>
       (w_env w2 (w_tick w2) = None \<longrightarrow> fst (transaction_scope tx body w) = Returns v)) \<and>
    (b = Raises e \<longrightarrow>
       w_trace (snd (snd (transaction_scope tx body w))) =
         w_trace w2 @ [RollbackCalled (tx_connection tx)] \<and>
       (w_env w2 (w_tick w2) = None \<longrightarrow> fst (transaction_scope tx body w) = Raises e) \<and>
       (\<forall>e'. w_env w2 (w_tick w2) = Some e' \<longrightarrow> fst (transaction_scope tx body w) = Raises e'))"
proof -
  have tx1: "in_transaction tx1" "tx_connection tx1 = tx_connection tx"
    using tx_enter_Returns [OF assms(1)] by simp_all
  show ?thesis
    using assms tx1
    by (auto simp: transaction_scope_def tx_exit_commit tx_exit_rollback split: option.splits)
qed

lemma enter_calm: "tx_enter (transaction_new 0) calm =
   (Returns (), \<lparr>tx_connection = 0, in_transaction = True\<rparr>,
    \<lparr>w_env = (\<lambda>n. None), w_tick = 1, w_fresh = 0, w_trace = [BeginCalled 0]\<rparr>)"
  by (simp add: tx_enter_def call_def calm_def transaction_new_def)

lemma enter_rollback_fails: "tx_enter (transaction_new 0) rollback_fails =
   (Returns (), \<lparr>tx_connection = 0, in_transaction = True\<rparr>,
    \<lparr>w_env = (\<lambda>n. if n = 1 then Some rollback_failed else None), w_tick = 1, w_fresh = 0,
      w_trace = [BeginCalled 0]\<rparr>)"
  by (simp add: tx_enter_def call_def rollback_fails_def transaction_new_def)

theorem transaction_scope_exit_witness:
  "w_trace (snd (snd (transaction_scope (transaction_new 0) body_ok calm))) =
     [BeginCalled 0, CommitCalled 0] \<and>
   fst (transaction_scope (transaction_new 0) body_ok calm) = Returns 7 \<and>
   w_trace (snd (snd (transaction_scope (transaction_new 0) body_raises calm))) =
     [BeginCalled 0, RollbackCalled 0] \<and>
   fst (transaction_scope (transaction_new 0) body_raises calm) = Raises boom \<and>
   w_trace (snd (snd (transaction_scope (transaction_new 0) body_raises rollback_fails))) =
     [BeginCalled 0, RollbackCalled 0] \<and>
   fst (transaction_scope (transaction_new 0) body_raises rollback_fails) = Raises rollback_failed"
  using transaction_scope_exit [OF enter_calm, of body_ok "Returns 7" _ 7 boom]
    transaction_scope_exit [OF enter_calm, of body_raises "Raises boom" _ 7 boom]
    transaction_scope_exit [OF enter_rollback_fails, of body_raises "Raises boom" _ 7 boom]
  by (simp add: body_ok_def body_raises_def transaction_new_def)

text \<open>
  The claim as stated: whenever the body fails, the original failure is what the scope
  re-surfaces.  With a rollback that raises, the caller gets the rollback's exception.
\<close>

theorem transaction_scope_rollback_counterexample:
  "fst (transaction_scope (transaction_new 0) body_raises rollback_fails) = Raises rollback_failed \<and>
   Raises rollback_failed \<noteq> (Raises boom :: int outcome) \<and>
   fst (body_raises (snd (snd (tx_enter (transaction_new 0) rollback_fails)))) = Raises boom"
  by (simp add: transaction_scope_def tx_enter_def tx_exit_def call_def rollback_fails_def
      transaction_new_def body_raises_def rollback_failed_def boom_def)

section \<open>Properties of the pool\<close>

lemma create_connection_ok:
  "w_env w (w_tick w) = None \<Longrightarrow>
   create_connection p w =
     (Returns (w_fresh w),
      w\<lparr>w_tick := Suc (w_tick w), w_fresh := Suc (w_fresh w),
        w_trace := w_trace w @ [Created (w_fresh w)]\<rparr>)"
  by (simp add: create_connection_def emit_def)

lemma create_connection_fail:
  "w_env w (w_tick w) = Some e \<Longrightarrow> is_Exception e \<Longrightarrow>
   create_connection p w =
     (Raises (raise_from ConnectionError (''Failed to create connection: '' @ exc_message e) (Some e)),
      w\<lparr>w_tick := Suc (w_tick w), w_trace := w_trace w @ [CreateFailed, Logged ERROR]\<rparr>)"
  by (simp add: create_connection_def emit_def)

lemma is_Exception_ConnectionError [simp]: "is_Exception (raise_from ConnectionError m c)"
  by (simp add: is_Exception_def raise_from_def)


lemma acquire_closed:
  "p_closed p \<Longrightarrow>
   acquire p w = (Raises (raise_new ConnectionError ''Connection pool is closed''), p, w)"
  by (simp add: acquire_def)

lemma acquire_timeout:
  "\<not> p_closed p \<Longrightarrow> ensure_initialized p w = (Returns (), p1, w1) \<Longrightarrow> p_available p1 = [] \<Longrightarrow>
   acquire p w =
     (Raises (raise_new ConnectionError ''Timeout waiting for available connection''), p1,
      emit (Waited 30) w1)"
  by (simp add: acquire_def)

lemma acquire_alive:
  "\<not> p_closed p \<Longrightarrow> ensure_initialized p w = (Returns (), p1, w1) \<Longrightarrow>
   p_available p1 = c # rest \<Longrightarrow> w_env w1 (w_tick w1) = None \<Longrightarrow>
   acquire p w =
     (Returns c, p1\<lparr>p_available := rest\<rparr>,
      w1\<lparr>w_tick := Suc (w_tick w1), w_trace := w_trace w1 @ [Probed c]\<rparr>)"
  by (simp add: acquire_def version_def call_def)

lemma acquire_replaced:
  "\<not> p_closed p \<Longrightarrow> ensure_initialized p w = (Returns (), p1, w1) \<Longrightarrow>
   p_available p1 = c # rest \<Longrightarrow> w_env w1 (w_tick w1) = Some e \<Longrightarrow> is_Exception e \<Longrightarrow>
   w_env w1 (Suc (w_tick w1)) = None \<Longrightarrow>
   acquire p w =
     (Returns (w_fresh w1), p1\<lparr>p_available := rest\<rparr>,
      w1\<lparr>w_tick := Suc (Suc (w_tick w1)), w_fresh := Suc (w_fresh w1),
         w_trace := w_trace w1 @ [Probed c, Logged WARNING, Created (w_fresh w1)]\<rparr>)"
  by (simp add: acquire_def version_def call_def emit_def create_connection_ok)

lemma acquire_replacement_fails:
  "\<not> p_closed p \<Longrightarrow> ensure_initialized p w = (Returns (), p1, w1) \<Longrightarrow>
   p_available p1 = c # rest \<Longrightarrow> w_env w1 (w_tick w1) = Some e \<Longrightarrow> is_Exception e \<Longrightarrow>
   w_env w1 (Suc (w_tick w1)) = Some e' \<Longrightarrow> is_Exception e' \<Longrightarrow>
   acquire p w =
     (Raises (raise_from ConnectionError
                (''Failed to acquire connection: Failed to create connection: '' @ exc_message e')
                (Some (raise_from ConnectionError
                         (''Failed to create connection: '' @ exc_message e') (Some e')))),
      p1\<lparr>p_available := rest\<rparr>,
      w1\<lparr>w_tick := Suc (Suc (w_tick w1)),
         w_trace := w_trace w1 @ [Probed c, Logged WARNING, CreateFailed, Logged ERROR]\<rparr>)"
  apply (simp add: acquire_def version_def call_def emit_def create_connection_fail)
  apply (simp add: raise_from_def is_Exception_def)
  done


lemma closes_append: "closes (xs @ ys) = closes xs @ closes ys"
  by (induction xs rule: closes.induct) auto

lemma releases_append: "releases (xs @ ys) = releases xs @ releases ys"
  by (induction xs rule: releases.induct) auto

lemma created_append: "created (xs @ ys) = created xs @ created ys"
  by (induction xs rule: created.induct) auto

lemma warnings_append: "warnings (xs @ ys) = warnings xs + warnings ys"
  by (induction xs rule: warnings.induct) auto

lemma count_shift:
  "length (filter P [0..<Suc k]) = (if P 0 then 1 else 0) + length (filter (\<lambda>i. P (Suc i)) [0..<k])"
proof -
  have "[0..<Suc k] = 0 # map Suc [0..<k]"
    by (simp add: upt_conv_Cons map_Suc_upt del: upt_Suc)
  then show ?thesis by (simp add: filter_map comp_def del: upt_Suc)
qed

lemma failures_Suc:
  "failures w (Suc k) =
     (if w_env w (w_tick w) \<noteq> None then 1 else 0) +
     failures (w\<lparr>w_tick := Suc (w_tick w), w_trace := tr\<rparr>) k"
  unfolding failures_def by (subst count_shift) simp

lemma env_benign_update [simp]:
  "env_benign (w\<lparr>w_tick := t\<rparr>) = env_benign w"
  "env_benign (w\<lparr>w_trace := tr\<rparr>) = env_benign w"
  "env_benign (w\<lparr>w_fresh := f\<rparr>) = env_benign w"
  by (simp_all add: env_benign_def)

lemma drain_all:
  "env_benign w \<Longrightarrow>
   \<exists>w'. drain q w = (Returns (), [], w') \<and> w_env w' = w_env w \<and>
        w_tick w' = w_tick w + length q \<and> w_fresh w' = w_fresh w \<and>
        closes (w_trace w') = closes (w_trace w) @ q \<and>
        releases (w_trace w') = releases (w_trace w) \<and>
        warnings (w_trace w') = warnings (w_trace w) + failures w (length q)"
proof (induction q arbitrary: w)
  case Nil
  then show ?case by (simp add: failures_def)
next
  case (Cons c q)
  show ?case
  proof (cases "w_env w (w_tick w)")
    case None
    let ?w1 = "w\<lparr>w_tick := Suc (w_tick w), w_trace := w_trace w @ [CloseCalled c]\<rparr>"
    have b: "env_benign ?w1" using Cons.prems by simp
    from Cons.IH [OF b] obtain w' where w': "drain q ?w1 = (Returns (), [], w')"
      "w_env w' = w_env ?w1" "w_tick w' = w_tick ?w1 + length q" "w_fresh w' = w_fresh ?w1"
      "closes (w_trace w') = closes (w_trace ?w1) @ q"
      "releases (w_trace w') = releases (w_trace ?w1)"
      "warnings (w_trace w') = warnings (w_trace ?w1) + failures ?w1 (length q)"
      by blast
    have "drain (c # q) w = drain q ?w1" using None by (simp add: close_def call_def)
    then show ?thesis
      using w' None failures_Suc [of w "length q" "w_trace w @ [CloseCalled c]"]
      by (simp add: closes_append releases_append warnings_append)
  next
    case (Some e)
    let ?w1 = "w\<lparr>w_tick := Suc (w_tick w), w_trace := w_trace w @ [CloseCalled c, Logged WARNING]\<rparr>"
    have ex: "is_Exception e" using Cons.prems Some by (auto simp: env_benign_def)
    have b: "env_benign ?w1" using Cons.prems by simp
    from Cons.IH [OF b] obtain w' where w': "drain q ?w1 = (Returns (), [], w')"
      "w_env w' = w_env ?w1" "w_tick w' = w_tick ?w1 + length q" "w_fresh w' = w_fresh ?w1"
      "closes (w_trace w') = closes (w_trace ?w1) @ q"
      "releases (w_trace w') = releases (w_trace ?w1)"
      "warnings (w_trace w') = warnings (w_trace ?w1) + failures ?w1 (length q)"
      by blast
    have "drain (c # q) w = drain q ?w1" using Some ex by (simp add: close_def call_def emit_def)
    then show ?thesis
      using w' Some failures_Suc [of w "length q" "w_trace w @ [CloseCalled c, Logged WARNING]"]
      by (simp add: closes_append releases_append warnings_append)
  qed
qed

lemma close_all_once:
  assumes "env_benign w"
  shows "\<exists>w1. close_all p w = (Returns (), p\<lparr>p_closed := True, p_available := [], p_pool := []\<rparr>, w1) \<and>
           w_env w1 = w_env w \<and>
           closes (w_trace w1) = closes (w_trace w) @ p_available p \<and>
           warnings (w_trace w1) = warnings (w_trace w) + failures w (length (p_available p))"
proof -
  from drain_all [OF assms, of "p_available p"] obtain w' where
    w': "drain (p_available p) w = (Returns (), [], w')" "w_env w' = w_env w"
      "closes (w_trace w') = closes (w_trace w) @ p_available p"
      "warnings (w_trace w') = warnings (w_trace w) + failures w (length (p_available p))"
    by blast
  then show ?thesis
    by (simp add: close_all_def emit_def closes_append warnings_append)
qed

lemma successes_Suc:
  "w_env w' = w_env w \<Longrightarrow> w_tick w' = Suc (w_tick w) \<Longrightarrow>
   successes w (Suc k) = (if w_env w (w_tick w) = None then 1 else 0) + successes w' k"
  unfolding successes_def by (subst count_shift) simp

lemma fresh_ids_Suc:
  "map (\<lambda>j. f + j) [0..<Suc s] = f # map (\<lambda>j. Suc f + j) [0..<s]"
proof -
  have "[0..<Suc s] = 0 # map Suc [0..<s]"
    by (simp add: upt_conv_Cons map_Suc_upt del: upt_Suc)
  then show ?thesis by (simp add: comp_def del: upt_Suc)
qed

lemma init_loop_runs:
  assumes "env_benign w"
    and "0 < p_pool_size p \<longrightarrow> int (length (p_available p)) + int k \<le> p_pool_size p"
  shows "\<exists>w'. init_loop k p w =
            (Returns (),
             p\<lparr>p_pool := p_pool p @ map (\<lambda>j. w_fresh w + j) [0..<successes w k],
               p_available := p_available p @ map (\<lambda>j. w_fresh w + j) [0..<successes w k]\<rparr>, w') \<and>
          w_env w' = w_env w \<and> w_tick w' = w_tick w + k \<and>
          w_fresh w' = w_fresh w + successes w k \<and>
          releases (w_trace w') = releases (w_trace w) \<and>
          closes (w_trace w') = closes (w_trace w)"
  using assms
proof (induction k arbitrary: p w)
  case 0
  then show ?case by (simp add: successes_def)
next
  case (Suc k)
  show ?case
  proof (cases "w_env w (w_tick w)")
    case None
    let ?c = "w_fresh w"
    let ?w1 = "w\<lparr>w_tick := Suc (w_tick w), w_fresh := Suc (w_fresh w),
                  w_trace := w_trace w @ [Created (w_fresh w)]\<rparr>"
    let ?p2 = "p\<lparr>p_pool := p_pool p @ [?c], p_available := p_available p @ [?c]\<rparr>"
    have nf: "\<not> queue_full (p\<lparr>p_pool := p_pool p @ [?c]\<rparr>)"
      using Suc.prems(2) by (auto simp: queue_full_def)
    have step: "init_loop (Suc k) p w = init_loop k ?p2 ?w1"
      using None nf by (simp add: create_connection_ok put_def)
    have b: "env_benign ?w1" using Suc.prems(1) by simp
    have cap: "0 < p_pool_size ?p2 \<longrightarrow> int (length (p_available ?p2)) + int k \<le> p_pool_size ?p2"
      using Suc.prems(2) by auto
    from Suc.IH [OF b cap] obtain w' where w':
      "init_loop k ?p2 ?w1 =
         (Returns (),
          ?p2\<lparr>p_pool := p_pool ?p2 @ map (\<lambda>j. w_fresh ?w1 + j) [0..<successes ?w1 k],
              p_available := p_available ?p2 @ map (\<lambda>j. w_fresh ?w1 + j) [0..<successes ?w1 k]\<rparr>, w')"
      "w_env w' = w_env ?w1" "w_tick w' = w_tick ?w1 + k"
      "w_fresh w' = w_fresh ?w1 + successes ?w1 k"
      "releases (w_trace w') = releases (w_trace ?w1)"
      "closes (w_trace w') = closes (w_trace ?w1)"
      by blast
    have sc: "successes w (Suc k) = Suc (successes ?w1 k)"
      using successes_Suc [of ?w1 w k] None by simp
    show ?thesis
      unfolding step sc fresh_ids_Suc
      using w' by (simp add: releases_append closes_append)
  next
    case (Some e)
    let ?w1 = "w\<lparr>w_tick := Suc (w_tick w),
                  w_trace := w_trace w @ [CreateFailed, Logged ERROR, Logged ERROR]\<rparr>"
    have ex: "is_Exception e" using Suc.prems(1) Some by (auto simp: env_benign_def)
    have step: "init_loop (Suc k) p w = init_loop k p ?w1"
      using Some ex by (simp add: create_connection_fail emit_def)
    have b: "env_benign ?w1" using Suc.prems(1) by simp
    have cap: "0 < p_pool_size p \<longrightarrow> int (length (p_available p)) + int k \<le> p_pool_size p"
      using Suc.prems(2) by auto
    from Suc.IH [OF b cap] obtain w' where w':
      "init_loop k p ?w1 =
         (Returns (),
          p\<lparr>p_pool := p_pool p @ map (\<lambda>j. w_fresh ?w1 + j) [0..<successes ?w1 k],
              p_available := p_available p @ map (\<lambda>j. w_fresh ?w1 + j) [0..<successes ?w1 k]\<rparr>, w')"
      "w_env w' = w_env ?w1" "w_tick w' = w_tick ?w1 + k"
      "w_fresh w' = w_fresh ?w1 + successes ?w1 k"
      "releases (w_trace w') = releases (w_trace ?w1)"
      "closes (w_trace w') = closes (w_trace ?w1)"
      by blast
    have sc: "successes w (Suc k) = successes ?w1 k"
      using successes_Suc [of ?w1 w k] Some by simp
    show ?thesis
      unfolding step sc
      using w' by (simp add: releases_append closes_append)
  qed
qed

lemma successes_cong:
  "w_env w' = w_env w \<Longrightarrow> w_tick w' = w_tick w \<Longrightarrow> successes w' k = successes w k"
  by (simp add: successes_def)

lemma initialize_pool_fresh:
  assumes "p_pool p = []" and "p_available p = []" and "env_benign w"
  shows "\<exists>w'. initialize_pool p w =
            (Returns (),
             p\<lparr>p_pool := map (\<lambda>j. w_fresh w + j) [0..<successes w (nat (p_pool_size p))],
               p_available := map (\<lambda>j. w_fresh w + j) [0..<successes w (nat (p_pool_size p))]\<rparr>, w') \<and>
          w_env w' = w_env w \<and> w_tick w' = w_tick w + nat (p_pool_size p)"
proof -
  let ?w0 = "emit (Logged INFO) w"
  have b: "env_benign ?w0" using assms(3) by (simp add: emit_def)
  have cap: "0 < p_pool_size p \<longrightarrow>
      int (length (p_available p)) + int (nat (p_pool_size p)) \<le> p_pool_size p"
    using assms(2) by simp
  have sc: "successes ?w0 (nat (p_pool_size p)) = successes w (nat (p_pool_size p))"
    by (rule successes_cong) (simp_all add: emit_def)
  have f: "w_fresh ?w0 = w_fresh w" "w_env ?w0 = w_env w" "w_tick ?w0 = w_tick w"
    by (simp_all add: emit_def)
  from init_loop_runs [OF b cap] obtain w' where
    "init_loop (nat (p_pool_size p)) p ?w0 =
       (Returns (),
        p\<lparr>p_pool := p_pool p @ map (\<lambda>j. w_fresh ?w0 + j) [0..<successes ?w0 (nat (p_pool_size p))],
          p_available := p_available p @ map (\<lambda>j. w_fresh ?w0 + j) [0..<successes ?w0 (nat (p_pool_size p))]\<rparr>, w')"
    "w_env w' = w_env ?w0" "w_tick w' = w_tick ?w0 + nat (p_pool_size p)"
    by blast
  then show ?thesis
    unfolding sc f using assms(1,2) by (simp add: initialize_pool_def)
qed


lemma init_loop_preserves:
  "init_loop k p w = (Returns u, p', w') \<Longrightarrow> within_capacity p \<Longrightarrow>
   within_capacity p' \<and> p_pool_size p' = p_pool_size p \<and> p_closed p' = p_closed p \<and>
   p_max_retries p' = p_max_retries p \<and> p_retry_delay p' = p_retry_delay p \<and>
   w_env w' = w_env w \<and> releases (w_trace w') = releases (w_trace w)"
proof (induction k arbitrary: p w)
  case 0
  then show ?case by simp
next
  case (Suc k)
  show ?case
  proof (cases "w_env w (w_tick w)")
    case None
    let ?c = "w_fresh w"
    let ?w1 = "w\<lparr>w_tick := Suc (w_tick w), w_fresh := Suc (w_fresh w),
                  w_trace := w_trace w @ [Created (w_fresh w)]\<rparr>"
    let ?p1 = "p\<lparr>p_pool := p_pool p @ [?c]\<rparr>"
    let ?p2 = "p\<lparr>p_pool := p_pool p @ [?c], p_available := p_available p @ [?c]\<rparr>"
    have unf: "init_loop (Suc k) p w =
        (case put ?c ?p1 of None \<Rightarrow> (Blocks, ?p1, ?w1) | Some p2 \<Rightarrow> init_loop k p2 ?w1)"
      using None by (simp add: create_connection_ok Let_def)
    have nf: "\<not> queue_full ?p1"
    proof
      assume "queue_full ?p1"
      then have "init_loop (Suc k) p w = (Blocks, ?p1, ?w1)" unfolding unf by (simp add: put_def)
      with Suc.prems(1) show False by simp
    qed
    then have step: "init_loop k ?p2 ?w1 = (Returns u, p', w')"
      using Suc.prems(1) unfolding unf by (simp add: put_def)
    have cap: "within_capacity ?p2"
      using nf Suc.prems(2) by (auto simp: within_capacity_def queue_full_def)
    from Suc.IH [OF step cap] show ?thesis by (simp add: releases_append)
  next
    case (Some e)
    show ?thesis
    proof (cases "is_Exception e")
      case True
      let ?w1 = "w\<lparr>w_tick := Suc (w_tick w),
                    w_trace := w_trace w @ [CreateFailed, Logged ERROR, Logged ERROR]\<rparr>"
      have "init_loop (Suc k) p w = init_loop k p ?w1"
        using Some True by (simp add: create_connection_fail emit_def)
      then have step: "init_loop k p ?w1 = (Returns u, p', w')"
        using Suc.prems(1) by simp
      from Suc.IH [OF step Suc.prems(2)] show ?thesis by (simp add: releases_append)
    next
      case False
      have "create_connection p w = (Raises e, emit CreateFailed (w\<lparr>w_tick := Suc (w_tick w)\<rparr>))"
        using Some False by (simp add: create_connection_def)
      then have "fst (init_loop (Suc k) p w) = Raises e"
        using False by simp
      then show ?thesis using Suc.prems(1) by simp
    qed
  qed
qed

lemma ensure_initialized_preserves:
  assumes "ensure_initialized p w = (Returns u, p', w')" and "within_capacity p"
  shows "within_capacity p' \<and> p_pool_size p' = p_pool_size p \<and> p_closed p' = p_closed p \<and>
   p_max_retries p' = p_max_retries p \<and> p_retry_delay p' = p_retry_delay p \<and>
   w_env w' = w_env w \<and> releases (w_trace w') = releases (w_trace w)"
proof (cases "p_pool p = []")
  case True
  then have "init_loop (nat (p_pool_size p)) p (emit (Logged INFO) w) = (Returns u, p', w')"
    using assms(1) by (simp add: ensure_initialized_def initialize_pool_def)
  from init_loop_preserves [OF this assms(2)] show ?thesis
    by (simp add: emit_def releases_append)
next
  case False
  then show ?thesis using assms by (simp add: ensure_initialized_def)
qed


lemma create_connection_base:
  "w_env w (w_tick w) = Some e \<Longrightarrow> \<not> is_Exception e \<Longrightarrow>
   create_connection p w =
     (Raises e, w\<lparr>w_tick := Suc (w_tick w), w_trace := w_trace w @ [CreateFailed]\<rparr>)"
  by (simp add: create_connection_def emit_def)

lemma acquire_Returns:
  assumes "acquire p w = (Returns c, p1, w1)" and "within_capacity p"
  shows "\<not> queue_full p1 \<and> p_pool_size p1 = p_pool_size p \<and> p_closed p1 = p_closed p \<and>
         p_max_retries p1 = p_max_retries p \<and> p_retry_delay p1 = p_retry_delay p \<and>
         w_env w1 = w_env w \<and> releases (w_trace w1) = releases (w_trace w)"
proof -
  have nc: "\<not> p_closed p" using assms(1) by (auto simp: acquire_def)
  obtain r p' w' where ei: "ensure_initialized p w = (r, p', w')"
    by (metis prod_cases3)
  have r: "r = Returns ()" using assms(1) nc ei
    by (cases r) (simp_all add: acquire_def)
  note ei' = ei [unfolded r]
  note pres = ensure_initialized_preserves [OF ei' assms(2)]
  obtain d rest where q: "p_available p' = d # rest"
    using assms(1) nc ei' by (cases "p_available p'") (simp_all add: acquire_def)
  have "p1 = p'\<lparr>p_available := rest\<rparr> \<and> w_env w1 = w_env w' \<and>
        releases (w_trace w1) = releases (w_trace w')"
  proof (cases "w_env w' (w_tick w')")
    case None
    from acquire_alive [OF nc ei' q None] assms(1) show ?thesis
      by (auto simp: releases_append)
  next
    case (Some e)
    show ?thesis
    proof (cases "is_Exception e")
      case True
      show ?thesis
      proof (cases "w_env w' (Suc (w_tick w'))")
        case None
        from acquire_replaced [OF nc ei' q Some True None] assms(1) show ?thesis
          by (auto simp: releases_append)
      next
        case (Some e')
        note Some' = Some
        show ?thesis
        proof (cases "is_Exception e'")
          case True
          from acquire_replacement_fails [OF nc ei' q \<open>w_env w' (w_tick w') = Some e\<close>
              \<open>is_Exception e\<close> Some' True] assms(1)
          show ?thesis by simp
        next
          case False
          have "fst (acquire p w) = Raises e'"
            using nc ei' q \<open>w_env w' (w_tick w') = Some e\<close> \<open>is_Exception e\<close> Some' False
            by (simp add: acquire_def version_def call_def emit_def create_connection_base)
          then show ?thesis using assms(1) by simp
        qed
      qed
    next
      case False
      have "fst (acquire p w) = Raises e"
        using nc ei' q Some False by (simp add: acquire_def version_def call_def)
      then show ?thesis using assms(1) by simp
    qed
  qed
  moreover from this have "\<not> queue_full p1"
    using pres q by (auto simp: within_capacity_def queue_full_def)
  ultimately show ?thesis using pres by simp
qed


lemma close_quietly_benign:
  "env_benign w \<Longrightarrow>
   close_quietly c w =
     (Returns (), w\<lparr>w_tick := Suc (w_tick w), w_trace := w_trace w @ [CloseCalled c]\<rparr>)"
  by (auto simp: close_quietly_def close_def call_def env_benign_def split: option.splits)

lemma create_connection_benign:
  assumes "env_benign w"
  shows "\<exists>w'. releases (w_trace w') = releases (w_trace w) \<and>
           (create_connection p w = (Returns (w_fresh w), w') \<or>
            (\<exists>e. is_Exception e \<and> create_connection p w = (Raises e, w')))"
proof (cases "w_env w (w_tick w)")
  case None
  then show ?thesis by (simp add: create_connection_ok releases_append)
next
  case (Some e)
  then have "is_Exception e" using assms by (auto simp: env_benign_def)
  with Some show ?thesis
    by (auto simp: create_connection_fail releases_append)
qed

lemma release_returns:
  assumes "env_benign w" and "\<not> queue_full p"
  shows "\<exists>p2 w2. release p c w = (Returns (), p2, w2) \<and>
           releases (w_trace w2) = releases (w_trace w) @ [c]"
proof (cases "p_closed p")
  case True
  have "env_benign (emit (ReleaseCalled c) w)" using assms(1) by (simp add: emit_def)
  from close_quietly_benign [OF this, of c] True show ?thesis
    by (simp add: release_def Let_def emit_def releases_append)
next
  case False
  let ?w = "emit (ReleaseCalled c) w"
  show ?thesis
  proof (cases "w_env w (w_tick w)")
    case None
    then show ?thesis using False assms(2)
      by (simp add: release_def version_def call_def emit_def put_def releases_append)
  next
    case (Some e)
    then have ex: "is_Exception e" using assms(1) by (auto simp: env_benign_def)
    let ?w1 = "w\<lparr>w_tick := Suc (w_tick w),
                  w_trace := w_trace w @ [ReleaseCalled c, Probed c, Logged WARNING]\<rparr>"
    let ?w2 = "w\<lparr>w_tick := Suc (Suc (w_tick w)),
                  w_trace := w_trace w @ [ReleaseCalled c, Probed c, Logged WARNING, CloseCalled c]\<rparr>"
    have b1: "env_benign ?w1" and b2: "env_benign ?w2" using assms(1) by simp_all
    have cq: "close_quietly c ?w1 = (Returns (), ?w2)"
      using close_quietly_benign [OF b1, of c] by simp
    have unf: "release p c w =
       (if int (length (p_available p)) < p_pool_size p then
          (case create_connection p ?w2 of
             (Returns new_connection, w3) \<Rightarrow>
               (case put new_connection p of
                  None \<Rightarrow> (Blocks, p, w3)
                | Some p1 \<Rightarrow> (Returns (), p1, w3))
           | (Raises ce, w3) \<Rightarrow>
               if is_Exception ce then (Returns (), p, emit (Logged ERROR) w3)
               else (Raises ce, p, w3)
           | (Blocks, w3) \<Rightarrow> (Blocks, p, w3))
        else (Returns (), p, ?w2))"
      using False Some ex cq
      by (simp add: release_def version_def call_def emit_def Let_def)
    from create_connection_benign [OF b2, of p] obtain w3 where
      w3: "releases (w_trace w3) = releases (w_trace ?w2)"
        "create_connection p ?w2 = (Returns (w_fresh ?w2), w3) \<or>
         (\<exists>e. is_Exception e \<and> create_connection p ?w2 = (Raises e, w3))"
      by blast
    show ?thesis
    proof (cases "int (length (p_available p)) < p_pool_size p")
      case True
      from w3(2) show ?thesis
      proof
        assume "create_connection p ?w2 = (Returns (w_fresh ?w2), w3)"
        then show ?thesis unfolding unf using True assms(2) w3(1)
          by (simp add: put_def releases_append)
      next
        assume "\<exists>e. is_Exception e \<and> create_connection p ?w2 = (Raises e, w3)"
        then show ?thesis unfolding unf using True w3(1)
          by (auto simp: emit_def releases_append)
      qed
    next
      case False
      then show ?thesis unfolding unf by (simp add: releases_append)
    qed
  qed
qed

lemma retry_loop_releases:
  "releases (snd (retry_loop mr d op c xs n lst tr)) = releases tr"
proof (induction xs arbitrary: n lst tr)
  case Nil
  then show ?case by simp
next
  case (Cons a xs)
  show ?case
    by (cases "op n") (simp_all add: releases_append Cons.IH)
qed


lemma is_Exception_boom [simp]: "is_Exception boom"
  by (simp add: is_Exception_def boom_def)

lemma env_benign_worlds:
  "env_benign calm" "env_benign storm" "env_benign probe_fails" "env_benign only_first_ok"
  by (auto simp: env_benign_def calm_def storm_def probe_fails_def only_first_ok_def split: if_splits)

lemma within_capacity_pool3: "within_capacity pool3"
  by (simp add: within_capacity_def pool3_def)

text \<open>
  C6.  When \<open>acquire\<close> hands out a Connection \<open>c\<close> and the retried operation ends (by returning,
  by raising an exception that is not retried, or by the \<open>ConnectionError\<close> of exhausted retries),
  \<open>execute_with_connection\<close> calls \<open>release\<close> exactly once, on \<open>c\<close>, and its own outcome is the
  outcome \<open>r\<close> of the retried operation.  Connection calls fail with \<open>Exception\<close>s and the queue
  is within its capacity, as \<^verbatim>\<open>Queue(maxsize=pool_size)\<close> guarantees.
\<close>

theorem execute_with_connection_releases:
  assumes "acquire p w = (Returns c, p1, w1)" and "env_benign w" and "within_capacity p"
    and "pool_execute_with_retry p1 op c (w_trace w1) = (r, tr2)" and "r \<noteq> Blocks"
  shows "fst (execute_with_connection p op w) = r \<and>
         releases (w_trace (snd (snd (execute_with_connection p op w)))) = releases (w_trace w) @ [c]"
proof -
  note acq = acquire_Returns [OF assms(1,3)]
  let ?w2 = "w1\<lparr>w_trace := tr2\<rparr>"
  have b: "env_benign ?w2" using assms(2) acq by (simp add: env_benign_def)
  have nf: "\<not> queue_full p1" using acq by simp
  from release_returns [OF b nf, of c] obtain p3 w3 where
    rel: "release p1 c ?w2 = (Returns (), p3, w3)"
      "releases (w_trace w3) = releases (w_trace ?w2) @ [c]"
    by blast
  have tr2: "releases tr2 = releases (w_trace w1)"
    using retry_loop_releases [of "p_max_retries p1" "p_retry_delay p1" op c
        "[0..p_max_retries p1]" 0 None "w_trace w1"] assms(4)
    by (simp add: pool_execute_with_retry_def)
  have "execute_with_connection p op w = (r, p3, w3)"
    using assms(1,4,5) rel(1) by (cases r) (simp_all add: execute_with_connection_def)
  then show ?thesis using rel(2) tr2 acq by simp
qed



lemma acquire_pool3_calm:
  "acquire pool3 calm =
     (Returns 0, pool3\<lparr>p_pool := [0], p_available := []\<rparr>,
      calm\<lparr>w_tick := 2, w_fresh := 1, w_trace := [Logged INFO, Created 0, Probed 0]\<rparr>)"
  by (simp add: acquire_def ensure_initialized_def initialize_pool_def pool3_def calm_def
      create_connection_def emit_def put_def queue_full_def version_def call_def Let_def)

lemma retry_pool3_flaky:
  "pool_execute_with_retry (pool3\<lparr>p_pool := [0], p_available := []\<rparr>) flaky 0
     (w_trace (calm\<lparr>w_tick := 2, w_fresh := 1, w_trace := [Logged INFO, Created 0, Probed 0]\<rparr>)) =
   (Returns 42, [Logged INFO, Created 0, Probed 0, Invoked 0, Logged WARNING, Slept 1,
                 Invoked 0, Logged WARNING, Slept 2, Invoked 0])"
  by (simp add: pool_execute_with_retry_def pool3_def flaky_def upto_rec1 is_Exception_def boom_def)

theorem execute_with_connection_releases_witness:
  "env_benign calm \<and> within_capacity pool3 \<and> fst (acquire pool3 calm) = Returns 0 \<and>
   fst (execute_with_connection pool3 flaky calm) = Returns 42 \<and>
   releases (w_trace (snd (snd (execute_with_connection pool3 flaky calm)))) = [0]"
proof -
  have ne: "Returns (42::int) \<noteq> Blocks" by simp
  have "fst (execute_with_connection pool3 flaky calm) = Returns 42 \<and>
     releases (w_trace (snd (snd (execute_with_connection pool3 flaky calm)))) =
       releases (w_trace calm) @ [0]"
    by (rule execute_with_connection_releases
        [OF acquire_pool3_calm env_benign_worlds(1) within_capacity_pool3 retry_pool3_flaky ne])
  moreover have "releases (w_trace calm) = []" by (simp add: calm_def)
  moreover have "fst (acquire pool3 calm) = Returns 0" by (simp only: acquire_pool3_calm fst_conv)
  ultimately show ?thesis
    using env_benign_worlds(1) within_capacity_pool3 by simp
qed

text \<open>
  C3, as the code has it.  On a closed pool \<open>acquire\<close> raises \<open>ConnectionError\<close> at once: nothing
  is called, nothing is waited for and the state is unchanged.  On an open pool whose queue is
  empty (after the initialisation, if it was due) the wait runs into the timeout of 30 seconds and
  \<open>acquire\<close> raises \<open>ConnectionError\<close>.  When a Connection is dequeued and its probe fails, the
  Connection stays out of the queue and a replacement is created without another wait: if the
  creation succeeds the fresh Connection is returned, and if the creation fails \<open>acquire\<close> raises
  a \<open>ConnectionError\<close> whose cause chain ends in the failure of the creation.
\<close>

theorem acquire_behaviour:
  "(p_closed p \<longrightarrow>
      acquire p w = (Raises (raise_new ConnectionError ''Connection pool is closed''), p, w)) \<and>
   (\<not> p_closed p \<and> ensure_initialized p w = (Returns (), p1, w1) \<and> p_available p1 = [] \<longrightarrow>
      acquire p w =
        (Raises (raise_new ConnectionError ''Timeout waiting for available connection''), p1,
         emit (Waited 30) w1)) \<and>
   (\<not> p_closed p \<and> ensure_initialized p w = (Returns (), p1, w1) \<and> p_available p1 = c # rest \<and>
    w_env w1 (w_tick w1) = Some e \<and> is_Exception e \<and> w_env w1 (Suc (w_tick w1)) = None \<longrightarrow>
      fst (acquire p w) = Returns (w_fresh w1) \<and>
      p_available (fst (snd (acquire p w))) = rest \<and>
      w_trace (snd (snd (acquire p w))) =
        w_trace w1 @ [Probed c, Logged WARNING, Created (w_fresh w1)]) \<and>
   (\<not> p_closed p \<and> ensure_initialized p w = (Returns (), p1, w1) \<and> p_available p1 = c # rest \<and>
    w_env w1 (w_tick w1) = Some e \<and> is_Exception e \<and>
    w_env w1 (Suc (w_tick w1)) = Some e' \<and> is_Exception e' \<longrightarrow>
      fst (acquire p w) =
        Raises (raise_from ConnectionError
                  (''Failed to acquire connection: Failed to create connection: '' @ exc_message e')
                  (Some (raise_from ConnectionError
                           (''Failed to create connection: '' @ exc_message e') (Some e')))) \<and>
      p_available (fst (snd (acquire p w))) = rest \<and>
      w_trace (snd (snd (acquire p w))) =
        w_trace w1 @ [Probed c, Logged WARNING, CreateFailed, Logged ERROR])"
  using acquire_closed [of p w] acquire_timeout [of p w p1 w1]
    acquire_replaced [of p w p1 w1 c rest e] acquire_replacement_fails [of p w p1 w1 c rest e e']
  by simp

lemma ensure_pool3_calm:
  "ensure_initialized pool3 calm =
     (Returns (), pool3\<lparr>p_pool := [0], p_available := [0]\<rparr>,
      calm\<lparr>w_tick := 1, w_fresh := 1, w_trace := [Logged INFO, Created 0]\<rparr>)"
  by (simp add: ensure_initialized_def initialize_pool_def pool3_def calm_def
      create_connection_def emit_def put_def queue_full_def Let_def)

lemma ensure_pool3_probe_fails:
  "ensure_initialized pool3 probe_fails =
     (Returns (), pool3\<lparr>p_pool := [0], p_available := [0]\<rparr>,
      probe_fails\<lparr>w_tick := 1, w_fresh := 1, w_trace := [Logged INFO, Created 0]\<rparr>)"
  by (simp add: ensure_initialized_def initialize_pool_def pool3_def probe_fails_def
      create_connection_def emit_def put_def queue_full_def Let_def)

lemma ensure_pool3_only_first_ok:
  "ensure_initialized pool3 only_first_ok =
     (Returns (), pool3\<lparr>p_pool := [0], p_available := [0]\<rparr>,
      only_first_ok\<lparr>w_tick := 1, w_fresh := 1, w_trace := [Logged INFO, Created 0]\<rparr>)"
  by (simp add: ensure_initialized_def initialize_pool_def pool3_def only_first_ok_def
      create_connection_def emit_def put_def queue_full_def Let_def)

lemma ensure_pool3_zero:
  "ensure_initialized pool3_zero calm = (Returns (), pool3_zero, calm)"
  by (simp add: ensure_initialized_def pool3_zero_def)

theorem acquire_behaviour_witness:
  "p_closed closed_pool3 \<and>
   acquire closed_pool3 calm =
     (Raises (raise_new ConnectionError ''Connection pool is closed''), closed_pool3, calm) \<and>
   \<not> p_closed pool3_zero \<and> ensure_initialized pool3_zero calm = (Returns (), pool3_zero, calm) \<and>
   p_available pool3_zero = [] \<and>
   acquire pool3_zero calm =
     (Raises (raise_new ConnectionError ''Timeout waiting for available connection''), pool3_zero,
      emit (Waited 30) calm) \<and>
   \<not> p_closed pool3 \<and>
   fst (acquire pool3 probe_fails) = Returns 1 \<and>
   p_available (fst (snd (acquire pool3 probe_fails))) = [] \<and>
   w_trace (snd (snd (acquire pool3 probe_fails))) =
     [Logged INFO, Created 0, Probed 0, Logged WARNING, Created 1] \<and>
   fst (acquire pool3 only_first_ok) =
     Raises (raise_from ConnectionError
               ''Failed to acquire connection: Failed to create connection: boom''
               (Some (raise_from ConnectionError ''Failed to create connection: boom'' (Some boom)))) \<and>
   w_trace (snd (snd (acquire pool3 only_first_ok))) =
     [Logged INFO, Created 0, Probed 0, Logged WARNING, CreateFailed, Logged ERROR]"
proof -
  have c1: "p_closed closed_pool3" by (simp add: closed_pool3_def)
  have c2: "\<not> p_closed pool3_zero" "p_available pool3_zero = []" "\<not> p_closed pool3"
    by (simp_all add: pool3_zero_def pool3_def)
  have msg: "exc_message boom = ''boom''" by (simp add: boom_def)
  have t1: "acquire closed_pool3 calm =
     (Raises (raise_new ConnectionError ''Connection pool is closed''), closed_pool3, calm)"
    using acquire_behaviour [of closed_pool3 calm] c1 by blast
  have t2: "acquire pool3_zero calm =
     (Raises (raise_new ConnectionError ''Timeout waiting for available connection''), pool3_zero,
      emit (Waited 30) calm)"
    using acquire_behaviour [of pool3_zero calm pool3_zero calm] c2 ensure_pool3_zero by blast
  have t3: "fst (acquire pool3 probe_fails) = Returns 1 \<and>
      p_available (fst (snd (acquire pool3 probe_fails))) = [] \<and>
      w_trace (snd (snd (acquire pool3 probe_fails))) =
        [Logged INFO, Created 0, Probed 0, Logged WARNING, Created 1]"
    using acquire_behaviour [of pool3 probe_fails "pool3\<lparr>p_pool := [0], p_available := [0]\<rparr>"
        "probe_fails\<lparr>w_tick := 1, w_fresh := 1, w_trace := [Logged INFO, Created 0]\<rparr>" 0 "[]" boom]
      c2 ensure_pool3_probe_fails
    by (simp add: probe_fails_def)
  have t4: "fst (acquire pool3 only_first_ok) =
     Raises (raise_from ConnectionError
               ''Failed to acquire connection: Failed to create connection: boom''
               (Some (raise_from ConnectionError ''Failed to create connection: boom'' (Some boom)))) \<and>
     w_trace (snd (snd (acquire pool3 only_first_ok))) =
       [Logged INFO, Created 0, Probed 0, Logged WARNING, CreateFailed, Logged ERROR]"
    using acquire_behaviour [of pool3 only_first_ok "pool3\<lparr>p_pool := [0], p_available := [0]\<rparr>"
        "only_first_ok\<lparr>w_tick := 1, w_fresh := 1, w_trace := [Logged INFO, Created 0]\<rparr>" 0 "[]" boom boom]
      c2 ensure_pool3_only_first_ok msg
    by (simp add: only_first_ok_def)
  show ?thesis using c1 c2 t1 t2 t3 t4 ensure_pool3_zero by simp
qed

text \<open>
  The claim as stated: after a failed probe a freshly created replacement is returned.  When the
  server refuses the replacement as well, \<open>acquire\<close> raises instead.
\<close>

theorem acquire_replacement_counterexample:
  "fst (acquire pool3 only_first_ok) =
     Raises (Exc ConnectionError ''Failed to acquire connection: Failed to create connection: boom''
               (Some (Exc ConnectionError ''Failed to create connection: boom'' (Some boom)))) \<and>
   w_trace (snd (snd (acquire pool3 only_first_ok))) =
     [Logged INFO, Created 0, Probed 0, Logged WARNING, CreateFailed, Logged ERROR]"
  unfolding acquire_def ensure_pool3_only_first_ok
  by (simp add: version_def call_def only_first_ok_def
      pool3_def create_connection_def emit_def raise_from_def boom_def is_Exception_def Let_def)

text \<open>
  C4.  A pool of size 1 creates Connection 0; at the first \<open>acquire\<close> the probe of Connection 0
  fails and Connection 1 is created and handed out.  Connection 0 is then not in the queue, was
  not handed to the caller, and \<open>close()\<close> was never called on it, while the pool is open.
\<close>

theorem acquire_leaks_dead_connection:
  "fst (acquire pool3 probe_fails) = Returns 1 \<and>
   created (w_trace (snd (snd (acquire pool3 probe_fails)))) = [0, 1] \<and>
   p_available (fst (snd (acquire pool3 probe_fails))) = [] \<and>
   closes (w_trace (snd (snd (acquire pool3 probe_fails)))) = [] \<and>
   p_closed (fst (snd (acquire pool3 probe_fails))) = False"
  unfolding acquire_def ensure_pool3_probe_fails
  by (simp add: version_def call_def probe_fails_def
      pool3_def create_connection_def emit_def boom_def is_Exception_def Let_def)

text \<open>
  \<open>AsyncConnectionPool.close_all\<close>, with Connection calls that fail with \<open>Exception\<close>s: it returns
  normally, leaves the pool closed with an empty queue and an empty pool list, and has called
  \<open>close()\<close> once on every queued Connection, in queue order, with one warning logged per
  \<open>close()\<close> that failed.  A second \<open>close_all\<close> returns normally as well, leaves the same pool
  state and calls \<open>close()\<close> on nothing.  \<open>SyncConnectionPool.close_all\<close> does the same as long as
  no \<open>close()\<close> raises \<open>queue.Empty\<close>.
\<close>

lemma close_all_twice:
  assumes "env_benign w"
  shows "\<exists>p1 w1 w2.
           close_all p w = (Returns (), p1, w1) \<and>
           is_closed p1 \<and> p_available p1 = [] \<and> p_pool p1 = [] \<and>
           closes (w_trace w1) = closes (w_trace w) @ p_available p \<and>
           warnings (w_trace w1) = warnings (w_trace w) + failures w (length (p_available p)) \<and>
           close_all p1 w1 = (Returns (), p1, w2) \<and>
           closes (w_trace w2) = closes (w_trace w1)"
proof -
  let ?p1 = "p\<lparr>p_closed := True, p_available := [], p_pool := []\<rparr>"
  from close_all_once [OF assms, of p] obtain w1 where
    w1: "close_all p w = (Returns (), ?p1, w1)" "w_env w1 = w_env w"
      "closes (w_trace w1) = closes (w_trace w) @ p_available p"
      "warnings (w_trace w1) = warnings (w_trace w) + failures w (length (p_available p))"
    by blast
  have b1: "env_benign w1" using assms w1(2) by (simp add: env_benign_def)
  from close_all_once [OF b1, of ?p1] obtain w2 where
    w2: "close_all ?p1 w1 = (Returns (), ?p1, w2)" "closes (w_trace w2) = closes (w_trace w1)"
    by auto
  show ?thesis using w1 w2 by (auto simp: is_closed_def)
qed

lemma sync_drain_eq_drain:
  "(\<forall>n e. w_env w n = Some e \<longrightarrow> exc_kind e \<noteq> QueueEmpty) \<Longrightarrow> sync_drain q w = drain q w"
proof (induction q arbitrary: w)
  case Nil
  then show ?case by simp
next
  case (Cons c q)
  show ?case
  proof (cases "w_env w (w_tick w)")
    case None
    then show ?thesis using Cons.IH [of "snd (close c w)"] Cons.prems
      by (simp add: close_def call_def)
  next
    case (Some e)
    then have "exc_kind e \<noteq> QueueEmpty" using Cons.prems by blast
    then show ?thesis
      using Some Cons.IH [of "emit (Logged WARNING) (snd (close c w))"] Cons.prems
      by (simp add: close_def call_def emit_def)
  qed
qed

lemma sync_close_all_eq_close_all:
  "(\<forall>n e. w_env w n = Some e \<longrightarrow> exc_kind e \<noteq> QueueEmpty) \<Longrightarrow> sync_close_all p w = close_all p w"
  by (simp add: sync_close_all_def close_all_def sync_drain_eq_drain)

text \<open>
  C7.  A sync pool holds Connections 0 and 1 in its queue and \<open>close()\<close> of Connection 0 raises
  \<open>queue.Empty\<close>.  \<open>SyncConnectionPool.close_all\<close> returns normally with the pool marked closed and
  the pool list cleared, but the handler \<^verbatim>\<open>except Empty: break\<close> has ended the drain: Connection 1
  is still queued, \<open>close()\<close> was not called on it, and nothing was logged.  On the same input
  \<open>AsyncConnectionPool.close_all\<close> logs one warning and closes both Connections.
\<close>

theorem sync_close_all_stops_on_queue_empty:
  "fst (sync_close_all pool_two first_close_queue_empty) = Returns () \<and>
   is_closed (fst (snd (sync_close_all pool_two first_close_queue_empty))) \<and>
   p_pool (fst (snd (sync_close_all pool_two first_close_queue_empty))) = [] \<and>
   closes (w_trace (snd (snd (sync_close_all pool_two first_close_queue_empty)))) = [0] \<and>
   p_available (fst (snd (sync_close_all pool_two first_close_queue_empty))) = [1] \<and>
   warnings (w_trace (snd (snd (sync_close_all pool_two first_close_queue_empty)))) = 0 \<and>
   closes (w_trace (snd (snd (close_all pool_two first_close_queue_empty)))) = [0, 1] \<and>
   p_available (fst (snd (close_all pool_two first_close_queue_empty))) = [] \<and>
   warnings (w_trace (snd (snd (close_all pool_two first_close_queue_empty)))) = 1"
  by (simp add: sync_close_all_def close_all_def pool_two_def pool3_def first_close_queue_empty_def
      close_def call_def emit_def is_closed_def is_Exception_def Let_def)


lemma acquire_keeps_list:
  assumes "p_pool p \<noteq> []" and "\<not> p_closed p"
  shows "\<exists>q. fst (snd (acquire p w)) = p\<lparr>p_available := q\<rparr>"
proof -
  have ei: "ensure_initialized p w = (Returns (), p, w)"
    using assms(1) by (simp add: ensure_initialized_def)
  show ?thesis
  proof (cases "p_available p")
    case Nil
    from acquire_timeout [OF assms(2) ei Nil] show ?thesis
      by (intro exI [of _ "p_available p"]) simp
  next
    case (Cons c rest)
    show ?thesis
    proof (cases "w_env w (w_tick w)")
      case None
      from acquire_alive [OF assms(2) ei Cons None] show ?thesis by auto
    next
      case (Some e)
      show ?thesis
      proof (cases "is_Exception e")
        case False
        then have "acquire p w = (Raises e, p\<lparr>p_available := rest\<rparr>, snd (version c w))"
          using assms(2) ei Cons Some by (simp add: acquire_def version_def call_def)
        then show ?thesis by auto
      next
        case True
        obtain r w3 where cc: "create_connection (p\<lparr>p_available := rest\<rparr>)
            (emit (Logged WARNING) (snd (version c w))) = (r, w3)"
          by (metis prod.exhaust)
        have "fst (snd (acquire p w)) = p\<lparr>p_available := rest\<rparr>"
          using assms(2) ei Cons Some True cc
          by (cases r) (simp_all add: acquire_def version_def call_def Let_def)
        then show ?thesis by auto
      qed
    qed
  qed
qed

lemma acquire_initialised:
  assumes "initialised p"
  shows "p_pool (fst (snd (acquire p w))) = p_pool p \<and> p_closed (fst (snd (acquire p w))) = p_closed p"
proof (cases "p_closed p")
  case True
  then show ?thesis by (simp add: acquire_closed)
next
  case False
  then have "p_pool p \<noteq> []" using assms by (simp add: initialised_def)
  from acquire_keeps_list [OF this False, of w] obtain q where
    "fst (snd (acquire p w)) = p\<lparr>p_available := q\<rparr>" by blast
  then show ?thesis by simp
qed

lemma release_keeps_list: "\<exists>q. fst (snd (release p c w)) = p\<lparr>p_available := q\<rparr>"
proof -
  have same: "\<exists>q. p = p\<lparr>p_available := q\<rparr>" by (intro exI [of _ "p_available p"]) simp
  have putc: "\<And>d w'. \<exists>q. fst (snd (case put d p of None \<Rightarrow> (Blocks, p, w')
        | Some p1 \<Rightarrow> (Returns (), p1, w'))) = p\<lparr>p_available := q\<rparr>"
    using same by (auto simp: put_def)
  let ?w = "emit (ReleaseCalled c) w"
  show ?thesis
  proof (cases "p_closed p")
    case True
    obtain r w1 where "close_quietly c ?w = (r, w1)" by (metis prod.exhaust)
    then show ?thesis using True same by (simp add: release_def Let_def)
  next
    case False
    obtain ve vw where v: "version c ?w = (ve, vw)" by (metis prod.exhaust)
    show ?thesis
    proof (cases ve)
      case None
      then have "release p c w =
          (case put c p of None \<Rightarrow> (Blocks, p, vw) | Some p1 \<Rightarrow> (Returns (), p1, vw))"
        using False v by (simp add: release_def Let_def)
      then show ?thesis using putc [where d = c and w' = vw] by simp
    next
      case (Some e)
      show ?thesis
      proof (cases "is_Exception e")
        case False
        then have "fst (snd (release p c w)) = p"
          using \<open>\<not> p_closed p\<close> Some v by (simp add: release_def Let_def)
        then show ?thesis using same by simp
      next
        case True
        obtain r w2 where cq: "close_quietly c (emit (Logged WARNING) vw) = (r, w2)"
          by (metis prod.exhaust)
        obtain r3 w3 where cc: "create_connection p w2 = (r3, w3)" by (metis prod.exhaust)
        have unf: "release p c w =
           (case r of
              Returns u \<Rightarrow>
                if int (length (p_available p)) < p_pool_size p then
                  (case r3 of
                     Returns new_connection \<Rightarrow>
                       (case put new_connection p of
                          None \<Rightarrow> (Blocks, p, w3)
                        | Some p1 \<Rightarrow> (Returns (), p1, w3))
                   | Raises ce \<Rightarrow>
                       if is_Exception ce then (Returns (), p, emit (Logged ERROR) w3)
                       else (Raises ce, p, w3)
                   | Blocks \<Rightarrow> (Blocks, p, w3))
                else (Returns (), p, w2)
            | Raises x \<Rightarrow> (Raises x, p, w2)
            | Blocks \<Rightarrow> (Blocks, p, w2))"
          using \<open>\<not> p_closed p\<close> Some True cq cc v
          by (cases r; cases r3) (simp_all add: release_def Let_def)
        show ?thesis
        proof (cases r)
          case (Returns u)
          show ?thesis
          proof (cases "int (length (p_available p)) < p_pool_size p")
            case lt: True
            show ?thesis
            proof (cases r3)
              case (Returns d)
              then show ?thesis unfolding unf using \<open>r = Returns u\<close> lt putc [where d = d and w' = w3] by simp
            next
              case (Raises ce)
              then show ?thesis unfolding unf using \<open>r = Returns u\<close> lt same by simp
            next
              case Blocks
              then show ?thesis unfolding unf using \<open>r = Returns u\<close> lt same by simp
            qed
          next
            case False
            then show ?thesis unfolding unf using Returns same by simp
          qed
        next
          case (Raises x)
          then show ?thesis unfolding unf using same by simp
        next
          case Blocks
          then show ?thesis unfolding unf using same by simp
        qed
      qed
    qed
  qed
qed

lemma release_initialised:
  "p_pool (fst (snd (release p c w))) = p_pool p \<and> p_closed (fst (snd (release p c w))) = p_closed p"
proof -
  from release_keeps_list [of p c w] obtain q where
    "fst (snd (release p c w)) = p\<lparr>p_available := q\<rparr>" by blast
  then show ?thesis by simp
qed

lemma close_all_closed: "p_closed (fst (snd (close_all p w)))"
proof -
  obtain r q w1 where d: "drain (p_available p) w = (r, q, w1)" by (metis prod_cases3)
  show ?thesis using d by (cases r) (simp_all add: close_all_def)
qed

lemma sync_close_all_closed: "p_closed (fst (snd (sync_close_all p w)))"
proof -
  obtain r q w1 where d: "sync_drain (p_available p) w = (r, q, w1)" by (metis prod_cases3)
  show ?thesis using d by (cases r) (simp_all add: sync_close_all_def)
qed

lemma execute_initialised:
  assumes "initialised p"
  shows "initialised (fst (snd (execute_with_connection p op w)))"
proof -
  obtain r p1 w1 where a: "acquire p w = (r, p1, w1)" by (metis prod_cases3)
  have p1: "initialised p1"
    using acquire_initialised [OF assms, of w] a assms by (simp add: initialised_def)
  show ?thesis
  proof (cases r)
    case (Returns c)
    obtain r2 tr2 where e: "pool_execute_with_retry p1 op c (w_trace w1) = (r2, tr2)"
      by (metis prod.exhaust)
    obtain r3 p3 w3 where rl: "release p1 c (w1\<lparr>w_trace := tr2\<rparr>) = (r3, p3, w3)"
      by (metis prod_cases3)
    have p3: "initialised p3"
      using release_initialised [of p1 c "w1\<lparr>w_trace := tr2\<rparr>"] rl p1
      by (simp add: initialised_def)
    show ?thesis
      using a Returns e rl p1 p3
      by (cases r2; cases r3) (simp_all add: execute_with_connection_def)
  next
    case (Raises e)
    then show ?thesis using a p1 by (simp add: execute_with_connection_def)
  next
    case Blocks
    then show ?thesis using a p1 by (simp add: execute_with_connection_def)
  qed
qed

lemma pool_step_initialised:
  "initialised (fst s) \<Longrightarrow> initialised (fst (pool_step op s))"
proof (cases s)
  case (Pair p w)
  assume i: "initialised (fst s)"
  then have ip: "initialised p" using Pair by simp
  show ?thesis
  proof (cases op)
    case Acquire
    then show ?thesis using Pair ip acquire_initialised [OF ip, of w]
      by (simp add: initialised_def)
  next
    case (Release c)
    then show ?thesis using Pair ip release_initialised [of p c w]
      by (simp add: initialised_def)
  next
    case (Execute f)
    then show ?thesis using Pair execute_initialised [OF ip, of f w] by simp
  next
    case CloseAll
    then show ?thesis using Pair close_all_closed [of p w] by (simp add: initialised_def)
  next
    case SyncCloseAll
    then show ?thesis using Pair sync_close_all_closed [of p w] by (simp add: initialised_def)
  qed
qed

lemma pool_run_initialised:
  "initialised (fst s) \<Longrightarrow> initialised (fst (pool_run ops s))"
  unfolding pool_run_def
  by (induction ops arbitrary: s) (simp_all add: pool_step_initialised)

lemma initialised_no_init:
  assumes "initialised p"
  shows "(if p_closed p
          then acquire p w = (Raises (raise_new ConnectionError ''Connection pool is closed''), p, w)
          else ensure_initialized p w = (Returns (), p, w))"
  using assms by (auto simp: initialised_def acquire_closed ensure_initialized_def)


lemma lock_inv_take:
  assumes "lock_inv S" and "i < length (sys_callers S)" and "sys_lock S = None"
    and "sys_callers S' = sys_callers S" and "sys_lock S' = Some i"
  shows "lock_inv (move i Entered S')"
  using assms by (auto simp: lock_inv_def move_def nth_list_update)

lemma lock_inv_keep:
  assumes "lock_inv S" and "i < length (sys_callers S)" and "holds_lock (sys_callers S ! i)"
    and "holds_lock pc" and "sys_callers S' = sys_callers S" and "sys_lock S' = sys_lock S"
  shows "lock_inv (move i pc S')"
  using assms by (auto simp: lock_inv_def move_def nth_list_update)

lemma lock_inv_leave:
  assumes "lock_inv S" and "i < length (sys_callers S)" and "holds_lock (sys_callers S ! i)"
    and "sys_callers S' = sys_callers S"
  shows "lock_inv (leave i S')"
  using assms by (auto simp: lock_inv_def leave_def nth_list_update)

lemma init_step_lock_inv:
  assumes "lock_inv S"
  shows "lock_inv (init_step i S)"
proof (cases "i < length (sys_callers S)")
  case False
  then show ?thesis using assms by (simp add: init_step_def)
next
  case True
  show ?thesis
  proof (cases "sys_callers S ! i")
    case Waiting
    show ?thesis
    proof (cases "sys_lock S")
      case None
      have "init_step i S = move i Entered (S\<lparr>sys_lock := Some i\<rparr>)"
        using True Waiting None by (simp add: init_step_def)
      then show ?thesis using lock_inv_take [OF assms True None, of "S\<lparr>sys_lock := Some i\<rparr>"] by simp
    next
      case (Some j)
      then show ?thesis using True Waiting assms by (simp add: init_step_def)
    qed
  next
    case Entered
    then have h: "holds_lock (sys_callers S ! i)" by simp
    show ?thesis
    proof (cases "p_pool (sys_pool S) = []")
      case False
      then have "init_step i S = leave i S" using True Entered by (simp add: init_step_def)
      then show ?thesis using lock_inv_leave [OF assms True h, of S] by simp
    next
      case e: True
      have "init_step i S = move i (Looping (nat (p_pool_size (sys_pool S))))
                 (S\<lparr>sys_world := emit (Logged INFO) (sys_world S)\<rparr>)"
        using True Entered e by (simp add: init_step_def)
      then show ?thesis
        using lock_inv_keep [OF assms True h, of "Looping (nat (p_pool_size (sys_pool S)))"
            "S\<lparr>sys_world := emit (Logged INFO) (sys_world S)\<rparr>"] by simp
    qed
  next
    case (Looping k)
    then have h: "holds_lock (sys_callers S ! i)" by simp
    show ?thesis
    proof (cases k)
      case 0
      then have "init_step i S = leave i S" using True Looping by (simp add: init_step_def)
      then show ?thesis using lock_inv_leave [OF assms True h, of S] by simp
    next
      case (Suc k')
      obtain r w1 where cc: "create_connection (sys_pool S) (sys_world S) = (r, w1)"
        by (metis prod.exhaust)
      show ?thesis
      proof (cases r)
        case (Returns c)
        have "init_step i S = move i (Putting c k')
                 (S\<lparr>sys_pool := (sys_pool S)\<lparr>p_pool := p_pool (sys_pool S) @ [c]\<rparr>, sys_world := w1\<rparr>)"
          using True Looping Suc cc Returns by (simp add: init_step_def)
        then show ?thesis
          using lock_inv_keep [OF assms True h, of "Putting c k'"
              "S\<lparr>sys_pool := (sys_pool S)\<lparr>p_pool := p_pool (sys_pool S) @ [c]\<rparr>, sys_world := w1\<rparr>"]
          by simp
      next
        case (Raises e)
        show ?thesis
        proof (cases "is_Exception e")
          case ex: True
          have "init_step i S = move i (Looping k') (S\<lparr>sys_world := emit (Logged ERROR) w1\<rparr>)"
            using True Looping Suc cc Raises ex by (simp add: init_step_def)
          then show ?thesis
            using lock_inv_keep [OF assms True h, of "Looping k'"
                "S\<lparr>sys_world := emit (Logged ERROR) w1\<rparr>"] by simp
        next
          case False
          have "init_step i S = leave i (S\<lparr>sys_world := w1\<rparr>)"
            using True Looping Suc cc Raises False by (simp add: init_step_def)
          then show ?thesis
            using lock_inv_leave [OF assms True h, of "S\<lparr>sys_world := w1\<rparr>"] by simp
        qed
      next
        case Blocks
        then have "init_step i S = S" using True Looping Suc cc by (simp add: init_step_def)
        then show ?thesis using assms by simp
      qed
    qed
  next
    case (Putting c k)
    then have h: "holds_lock (sys_callers S ! i)" by simp
    show ?thesis
    proof (cases "put c (sys_pool S)")
      case None
      then have "init_step i S = S" using True Putting by (simp add: init_step_def)
      then show ?thesis using assms by simp
    next
      case (Some p2)
      have "init_step i S = move i (Looping k) (S\<lparr>sys_pool := p2\<rparr>)"
        using True Putting Some by (simp add: init_step_def)
      then show ?thesis
        using lock_inv_keep [OF assms True h, of "Looping k" "S\<lparr>sys_pool := p2\<rparr>"] by simp
    qed
  next
    case Left
    then show ?thesis using True assms by (simp add: init_step_def)
  qed
qed

lemma init_run_lock_inv: "lock_inv S \<Longrightarrow> lock_inv (init_run schedule S)"
  unfolding init_run_def
  by (induction schedule arbitrary: S) (simp_all add: init_step_lock_inv)

lemma lock_inv_exclusive:
  "lock_inv S \<Longrightarrow> i < length (sys_callers S) \<Longrightarrow> j < length (sys_callers S) \<Longrightarrow>
   holds_lock (sys_callers S ! i) \<Longrightarrow> holds_lock (sys_callers S ! j) \<Longrightarrow> i = j"
  by (auto simp: lock_inv_def)

lemma lock_inv_init_start: "lock_inv (init_start p w n)"
  by (simp add: lock_inv_def init_start_def)

lemma init_runs_append: "init_runs (xs @ ys) = init_runs xs + init_runs ys"
  by (induction xs rule: init_runs.induct) auto

lemma create_connection_init_runs:
  "init_runs (w_trace (snd (create_connection p w))) = init_runs (w_trace w)"
  by (cases "w_env w (w_tick w)")
    (simp_all add: create_connection_def emit_def Let_def init_runs_append)

lemma put_keeps_list: "put c p = Some p2 \<Longrightarrow> p_pool p2 = p_pool p"
  by (auto simp: put_def split: if_splits)

lemma init_step_no_rerun:
  assumes "p_pool (sys_pool S) \<noteq> []"
  shows "p_pool (sys_pool (init_step i S)) \<noteq> [] \<and>
         init_runs (w_trace (sys_world (init_step i S))) = init_runs (w_trace (sys_world S))"
proof (cases "i < length (sys_callers S)")
  case False
  then show ?thesis using assms by (simp add: init_step_def)
next
  case True
  show ?thesis
  proof (cases "sys_callers S ! i")
    case Waiting
    then show ?thesis using True assms by (simp add: init_step_def move_def)
  next
    case Entered
    then show ?thesis using True assms by (simp add: init_step_def leave_def)
  next
    case (Looping k)
    show ?thesis
    proof (cases k)
      case 0
      then show ?thesis using True Looping assms by (simp add: init_step_def leave_def)
    next
      case (Suc k')
      obtain r w1 where cc: "create_connection (sys_pool S) (sys_world S) = (r, w1)"
        by (metis prod.exhaust)
      have tr: "init_runs (w_trace w1) = init_runs (w_trace (sys_world S))"
        using create_connection_init_runs [of "sys_pool S" "sys_world S"] cc by simp
      show ?thesis
        using True Looping Suc cc tr assms
        by (cases r) (simp_all add: init_step_def move_def leave_def emit_def init_runs_append)
    qed
  next
    case (Putting c k)
    show ?thesis
    proof (cases "put c (sys_pool S)")
      case None
      then show ?thesis using True Putting assms by (simp add: init_step_def)
    next
      case (Some p2)
      then show ?thesis using True Putting assms put_keeps_list [OF Some]
        by (simp add: init_step_def move_def)
    qed
  next
    case Left
    then show ?thesis using True assms by (simp add: init_step_def)
  qed
qed

lemma init_run_no_rerun:
  "p_pool (sys_pool S) \<noteq> [] \<Longrightarrow>
   p_pool (sys_pool (init_run schedule S)) \<noteq> [] \<and>
   init_runs (w_trace (sys_world (init_run schedule S))) = init_runs (w_trace (sys_world S))"
  unfolding init_run_def
proof (induction schedule arbitrary: S)
  case Nil
  then show ?case by simp
next
  case (Cons i schedule)
  from init_step_no_rerun [OF Cons.prems, of i] Cons.IH [of "init_step i S"]
  show ?case by simp
qed

lemma init_step_callers: "length (sys_callers (init_step i S)) = length (sys_callers S)"
proof -
  obtain r w1 where cc: "create_connection (sys_pool S) (sys_world S) = (r, w1)"
    by (metis prod.exhaust)
  show ?thesis
    using cc
    by (cases r)
      (simp_all add: init_step_def move_def leave_def
        split: init_pc.splits nat.splits option.splits)
qed

lemma init_run_callers: "length (sys_callers (init_run schedule S)) = length (sys_callers S)"
  unfolding init_run_def
  by (induction schedule arbitrary: S) (simp_all add: init_step_callers)


lemma init_run_Cons: "init_run (i # schedule) S = init_run schedule (init_step i S)"
  by (simp add: init_run_def)

lemma init_run_left:
  "sys_callers S = [Left] \<Longrightarrow> init_run (replicate m 0) S = S"
proof (induction m)
  case 0
  then show ?case by (simp add: init_run_def)
next
  case (Suc m)
  have "init_step 0 S = S" using Suc.prems by (simp add: init_step_def)
  then show ?case using Suc by (simp add: init_run_Cons)
qed

lemma alone_loop:
  assumes "init_loop k p w = (Returns (), p', w')" and "2 * k + 1 \<le> m"
  shows "init_run (replicate m 0)
           \<lparr>sys_pool = p, sys_world = w, sys_lock = Some 0, sys_callers = [Looping k]\<rparr> =
         \<lparr>sys_pool = p', sys_world = w', sys_lock = None, sys_callers = [Left]\<rparr>"
  using assms
proof (induction k arbitrary: p w m)
  case 0
  then obtain m' where m: "m = Suc m'" by (cases m) auto
  have st: "init_step 0 \<lparr>sys_pool = p, sys_world = w, sys_lock = Some 0, sys_callers = [Looping 0]\<rparr> =
        \<lparr>sys_pool = p, sys_world = w, sys_lock = None, sys_callers = [Left]\<rparr>"
    by (simp add: init_step_def leave_def)
  show ?case using 0 unfolding m replicate_Suc init_run_Cons st
    by (simp add: init_run_left)
next
  case (Suc k)
  let ?S = "\<lparr>sys_pool = p, sys_world = w, sys_lock = Some 0, sys_callers = [Looping (Suc k)]\<rparr>"
  obtain r w1 where cc: "create_connection p w = (r, w1)" by (metis prod.exhaust)
  show ?case
  proof (cases r)
    case (Returns c)
    let ?p1 = "p\<lparr>p_pool := p_pool p @ [c]\<rparr>"
    obtain p2 where pt: "put c ?p1 = Some p2"
      using Suc.prems(1) cc Returns by (cases "put c ?p1") (simp_all add: Let_def)
    have lp: "init_loop k p2 w1 = (Returns (), p', w')"
      using Suc.prems(1) cc Returns pt by (simp add: Let_def)
    obtain m' where m: "m = Suc (Suc m')" "2 * k + 1 \<le> m'"
      using Suc.prems(2) by (cases m; cases "m - 1") auto
    have s1: "init_step 0 ?S =
        \<lparr>sys_pool = ?p1, sys_world = w1, sys_lock = Some 0, sys_callers = [Putting c k]\<rparr>"
      using cc Returns by (simp add: init_step_def move_def)
    have s2: "init_step 0
        \<lparr>sys_pool = ?p1, sys_world = w1, sys_lock = Some 0, sys_callers = [Putting c k]\<rparr> =
        \<lparr>sys_pool = p2, sys_world = w1, sys_lock = Some 0, sys_callers = [Looping k]\<rparr>"
      using pt by (simp add: init_step_def move_def)
    show ?thesis
      unfolding m(1) replicate_Suc init_run_Cons s1 s2
      by (rule Suc.IH [OF lp m(2)])
  next
    case (Raises e)
    have ex: "is_Exception e"
      using Suc.prems(1) cc Raises by (cases "is_Exception e") simp_all
    have lp: "init_loop k p (emit (Logged ERROR) w1) = (Returns (), p', w')"
      using Suc.prems(1) cc Raises ex by simp
    obtain m' where m: "m = Suc m'" "2 * k + 1 \<le> m'"
      using Suc.prems(2) by (cases m) auto
    have s1: "init_step 0 ?S =
        \<lparr>sys_pool = p, sys_world = emit (Logged ERROR) w1, sys_lock = Some 0,
          sys_callers = [Looping k]\<rparr>"
      using cc Raises ex by (simp add: init_step_def move_def)
    show ?thesis
      unfolding m(1) replicate_Suc init_run_Cons s1
      by (rule Suc.IH [OF lp m(2)])
  next
    case Blocks
    then show ?thesis using Suc.prems(1) cc by simp
  qed
qed

lemma alone_initialize_pool:
  assumes "initialize_pool p w = (Returns (), p', w')" and "2 * nat (p_pool_size p) + 3 \<le> m"
  shows "init_run (replicate m 0) (init_start p w 1) =
         \<lparr>sys_pool = p', sys_world = w', sys_lock = None, sys_callers = [Left]\<rparr>"
proof -
  obtain m' where m: "m = Suc (Suc m')" "2 * nat (p_pool_size p) + 1 \<le> m'"
    using assms(2) by (cases m; cases "m - 1") auto
  have s1: "init_step 0 (init_start p w 1) =
      \<lparr>sys_pool = p, sys_world = w, sys_lock = Some 0, sys_callers = [Entered]\<rparr>"
    by (simp add: init_step_def init_start_def move_def)
  show ?thesis
  proof (cases "p_pool p = []")
    case True
    have lp: "init_loop (nat (p_pool_size p)) p (emit (Logged INFO) w) = (Returns (), p', w')"
      using assms(1) True by (simp add: initialize_pool_def)
    have s2: "init_step 0 \<lparr>sys_pool = p, sys_world = w, sys_lock = Some 0, sys_callers = [Entered]\<rparr> =
        \<lparr>sys_pool = p, sys_world = emit (Logged INFO) w, sys_lock = Some 0,
          sys_callers = [Looping (nat (p_pool_size p))]\<rparr>"
      using True by (simp add: init_step_def move_def)
    show ?thesis
      unfolding m(1) replicate_Suc init_run_Cons s1 s2
      by (rule alone_loop [OF lp m(2)])
  next
    case False
    have eq: "p' = p" "w' = w" using assms(1) False by (simp_all add: initialize_pool_def)
    have s2: "init_step 0 \<lparr>sys_pool = p, sys_world = w, sys_lock = Some 0, sys_callers = [Entered]\<rparr> =
        \<lparr>sys_pool = p, sys_world = w, sys_lock = None, sys_callers = [Left]\<rparr>"
      using False by (simp add: init_step_def leave_def)
    show ?thesis
      unfolding m(1) replicate_Suc init_run_Cons s1 s2 eq
      by (simp add: init_run_left)
  qed
qed


text \<open>
  C5, as the code has it.  \<open>_initialize_pool\<close> does nothing when the pool list is not empty.  On a
  fresh pool (empty list, empty queue) it returns normally whatever creations fail: the queue and
  the pool list then hold exactly the Connections whose creation succeeded, \<open>available_connections\<close>
  is their number and \<open>pool_size\<close> is unchanged.  If at least one creation succeeded the pool is
  initialised, any later \<open>_initialize_pool\<close> is a no-op and an \<open>acquire\<close> hands out the first
  Connection when its probe succeeds.  From an initialised pool, every sequence of \<open>acquire\<close>,
  \<open>release\<close>, \<open>execute_with_connection\<close> and \<open>close_all\<close> calls, made one after the other, leads
  to an initialised pool, on which \<open>acquire\<close> either raises at once (closed) or passes the
  initialisation without touching the pool or the world.  Among concurrent callers of
  \<open>_initialize_pool\<close>, in every interleaving, the callers between entering and leaving the
  \<open>with self._lock\<close> block are exactly the holder of the lock, so at most one at a time; once the
  pool list is not empty it stays so and no further run of the creation loop starts.  A caller
  that runs alone does what the sequential \<open>_initialize_pool\<close> does.
\<close>

theorem initialize_pool_partial_failure:
  "(p_pool p \<noteq> [] \<longrightarrow> initialize_pool p w = (Returns (), p, w)) \<and>
   (p_pool p = [] \<and> p_available p = [] \<and> env_benign w \<longrightarrow>
      fst (initialize_pool p w) = Returns () \<and>
      available_connections (fst (snd (initialize_pool p w))) = successes w (nat (pool_size p)) \<and>
      p_available (fst (snd (initialize_pool p w))) =
        map (\<lambda>j. w_fresh w + j) [0..<successes w (nat (pool_size p))] \<and>
      p_pool (fst (snd (initialize_pool p w))) = p_available (fst (snd (initialize_pool p w))) \<and>
      pool_size (fst (snd (initialize_pool p w))) = pool_size p \<and>
      is_closed (fst (snd (initialize_pool p w))) = is_closed p \<and>
      (0 < successes w (nat (pool_size p)) \<longrightarrow>
         initialised (fst (snd (initialize_pool p w))) \<and>
         (\<forall>v. initialize_pool (fst (snd (initialize_pool p w))) v =
               (Returns (), fst (snd (initialize_pool p w)), v)) \<and>
         (\<not> is_closed p \<and>
          w_env (snd (snd (initialize_pool p w))) (w_tick (snd (snd (initialize_pool p w)))) = None \<longrightarrow>
            fst (acquire (fst (snd (initialize_pool p w))) (snd (snd (initialize_pool p w)))) =
              Returns (w_fresh w)))) \<and>
   (initialised p \<longrightarrow>
      initialised (fst (pool_run ops (p, w))) \<and>
      (if p_closed (fst (pool_run ops (p, w)))
       then acquire (fst (pool_run ops (p, w))) (snd (pool_run ops (p, w))) =
              (Raises (raise_new ConnectionError ''Connection pool is closed''),
               fst (pool_run ops (p, w)), snd (pool_run ops (p, w)))
       else ensure_initialized (fst (pool_run ops (p, w))) (snd (pool_run ops (p, w))) =
              (Returns (), fst (pool_run ops (p, w)), snd (pool_run ops (p, w))))) \<and>
   lock_inv (init_run schedule (init_start p w n)) \<and>
   (\<forall>i j. i < n \<and> j < n \<and>
      holds_lock (sys_callers (init_run schedule (init_start p w n)) ! i) \<and>
      holds_lock (sys_callers (init_run schedule (init_start p w n)) ! j) \<longrightarrow> i = j) \<and>
   (p_pool (sys_pool S) \<noteq> [] \<longrightarrow>
      p_pool (sys_pool (init_run schedule S)) \<noteq> [] \<and>
      init_runs (w_trace (sys_world (init_run schedule S))) = init_runs (w_trace (sys_world S))) \<and>
   (initialize_pool p w = (Returns (), p', w') \<and> 2 * nat (p_pool_size p) + 3 \<le> m \<longrightarrow>
      init_run (replicate m 0) (init_start p w 1) =
        \<lparr>sys_pool = p', sys_world = w', sys_lock = None, sys_callers = [Left]\<rparr>)"
proof -
  have a: "p_pool p \<noteq> [] \<longrightarrow> initialize_pool p w = (Returns (), p, w)"
    by (simp add: initialize_pool_def)
  have b: "fst (initialize_pool p w) = Returns () \<and>
      available_connections (fst (snd (initialize_pool p w))) = successes w (nat (pool_size p)) \<and>
      p_available (fst (snd (initialize_pool p w))) =
        map (\<lambda>j. w_fresh w + j) [0..<successes w (nat (pool_size p))] \<and>
      p_pool (fst (snd (initialize_pool p w))) = p_available (fst (snd (initialize_pool p w))) \<and>
      pool_size (fst (snd (initialize_pool p w))) = pool_size p \<and>
      is_closed (fst (snd (initialize_pool p w))) = is_closed p \<and>
      (0 < successes w (nat (pool_size p)) \<longrightarrow>
         initialised (fst (snd (initialize_pool p w))) \<and>
         (\<forall>v. initialize_pool (fst (snd (initialize_pool p w))) v =
               (Returns (), fst (snd (initialize_pool p w)), v)) \<and>
         (\<not> is_closed p \<and>
          w_env (snd (snd (initialize_pool p w))) (w_tick (snd (snd (initialize_pool p w)))) = None \<longrightarrow>
            fst (acquire (fst (snd (initialize_pool p w))) (snd (snd (initialize_pool p w)))) =
              Returns (w_fresh w)))"
    if h: "p_pool p = []" "p_available p = []" "env_benign w"
  proof -
    let ?s = "successes w (nat (p_pool_size p))"
    let ?new = "map (\<lambda>j. w_fresh w + j) [0..<?s]"
    let ?p' = "p\<lparr>p_pool := ?new, p_available := ?new\<rparr>"
    from initialize_pool_fresh [OF h] obtain w' where
      w': "initialize_pool p w = (Returns (), ?p', w')" by blast
    have again: "\<forall>v. initialize_pool ?p' v = (Returns (), ?p', v)" if "0 < ?s"
      using that by (simp add: initialize_pool_def)
    have inited: "initialised ?p'" if "0 < ?s"
      using that by (simp add: initialised_def)
    have usable: "fst (acquire ?p' w') = Returns (w_fresh w)"
      if "0 < ?s" "\<not> is_closed p" "w_env w' (w_tick w') = None"
    proof -
      have ne: "p_pool ?p' \<noteq> []" using that(1) by simp
      have ei: "ensure_initialized ?p' w' = (Returns (), ?p', w')"
        using ne by (simp add: ensure_initialized_def)
      have "[0..<?s] = 0 # [Suc 0..<?s]" using that(1) by (simp add: upt_conv_Cons)
      then have q: "p_available ?p' = w_fresh w # map (\<lambda>j. w_fresh w + j) [Suc 0..<?s]"
        by simp
      have nc: "\<not> p_closed ?p'" using that(2) by (simp add: is_closed_def)
      from acquire_alive [OF nc ei q that(3)] show ?thesis by simp
    qed
    show ?thesis
      unfolding w' using again usable inited
      by (simp add: available_connections_def pool_size_def is_closed_def)
  qed
  have c: "initialised (fst (pool_run ops (p, w))) \<and>
      (if p_closed (fst (pool_run ops (p, w)))
       then acquire (fst (pool_run ops (p, w))) (snd (pool_run ops (p, w))) =
              (Raises (raise_new ConnectionError ''Connection pool is closed''),
               fst (pool_run ops (p, w)), snd (pool_run ops (p, w)))
       else ensure_initialized (fst (pool_run ops (p, w))) (snd (pool_run ops (p, w))) =
              (Returns (), fst (pool_run ops (p, w)), snd (pool_run ops (p, w))))"
    if "initialised p"
  proof -
    have i: "initialised (fst (pool_run ops (p, w)))"
      using pool_run_initialised [of "(p, w)" ops] that by simp
    from initialised_no_init [OF i] i show ?thesis by blast
  qed
  have d: "lock_inv (init_run schedule (init_start p w n))"
    by (rule init_run_lock_inv [OF lock_inv_init_start])
  have len: "length (sys_callers (init_run schedule (init_start p w n))) = n"
    by (simp add: init_run_callers init_start_def)
  have e: "\<forall>i j. i < n \<and> j < n \<and>
      holds_lock (sys_callers (init_run schedule (init_start p w n)) ! i) \<and>
      holds_lock (sys_callers (init_run schedule (init_start p w n)) ! j) \<longrightarrow> i = j"
    using lock_inv_exclusive [OF d] len by auto
  have f: "p_pool (sys_pool S) \<noteq> [] \<longrightarrow>
      p_pool (sys_pool (init_run schedule S)) \<noteq> [] \<and>
      init_runs (w_trace (sys_world (init_run schedule S))) = init_runs (w_trace (sys_world S))"
    using init_run_no_rerun [of S schedule] by blast
  have g: "initialize_pool p w = (Returns (), p', w') \<and> 2 * nat (p_pool_size p) + 3 \<le> m \<longrightarrow>
      init_run (replicate m 0) (init_start p w 1) =
        \<lparr>sys_pool = p', sys_world = w', sys_lock = None, sys_callers = [Left]\<rparr>"
    using alone_initialize_pool [of p w p' w' m] by blast
  from a b c d e f g show ?thesis by blast
qed


lemma initialize_pool_three:
  "initialize_pool pool_three probe_fails =
     (Returns (), pool_three\<lparr>p_pool := [0, 1], p_available := [0, 1]\<rparr>,
      probe_fails\<lparr>w_tick := 3, w_fresh := 2,
        w_trace := [Logged INFO, Created 0, CreateFailed, Logged ERROR, Logged ERROR, Created 1]\<rparr>)"
  by (simp add: initialize_pool_def pool_three_def pool3_def probe_fails_def numeral_3_eq_3
      create_connection_def emit_def put_def queue_full_def Let_def is_Exception_def
      raise_from_def boom_def)

lemma successes_three: "successes probe_fails 3 = 2"
  by (simp add: successes_def probe_fails_def numeral_3_eq_3)

lemma initialised_pool_two: "initialised pool_two"
  by (simp add: initialised_def pool_two_def)

lemma pool_two_system: "p_pool (sys_pool (init_start pool_two calm 2)) \<noteq> []"
  by (simp add: init_start_def pool_two_def)

theorem initialize_pool_partial_failure_witness:
  "p_pool pool_two \<noteq> [] \<and> initialize_pool pool_two calm = (Returns (), pool_two, calm) \<and>
   p_pool pool_three = [] \<and> p_available pool_three = [] \<and> env_benign probe_fails \<and>
   fst (initialize_pool pool_three probe_fails) = Returns () \<and>
   available_connections (fst (snd (initialize_pool pool_three probe_fails))) = 2 \<and>
   p_available (fst (snd (initialize_pool pool_three probe_fails))) = [0, 1] \<and>
   pool_size (fst (snd (initialize_pool pool_three probe_fails))) = 3 \<and>
   \<not> is_closed (fst (snd (initialize_pool pool_three probe_fails))) \<and>
   initialised (fst (snd (initialize_pool pool_three probe_fails))) \<and>
   initialize_pool (fst (snd (initialize_pool pool_three probe_fails))) storm =
     (Returns (), fst (snd (initialize_pool pool_three probe_fails)), storm) \<and>
   fst (acquire (fst (snd (initialize_pool pool_three probe_fails)))
          (snd (snd (initialize_pool pool_three probe_fails)))) = Returns 0 \<and>
   initialised pool_two \<and>
   initialised (fst (pool_run [Acquire, Release 0, CloseAll, Acquire] (pool_two, calm))) \<and>
   lock_inv (init_run [0, 1, 0, 1, 0] (init_start pool_three probe_fails 2)) \<and>
   p_pool (sys_pool (init_start pool_two calm 2)) \<noteq> [] \<and>
   init_runs (w_trace (sys_world (init_run [0, 1, 0, 1, 0, 1] (init_start pool_two calm 2)))) = 0 \<and>
   init_run (replicate 9 0) (init_start pool_three probe_fails 1) =
     \<lparr>sys_pool = pool_three\<lparr>p_pool := [0, 1], p_available := [0, 1]\<rparr>,
      sys_world = probe_fails\<lparr>w_tick := 3, w_fresh := 2,
        w_trace := [Logged INFO, Created 0, CreateFailed, Logged ERROR, Logged ERROR, Created 1]\<rparr>,
      sys_lock = None, sys_callers = [Left]\<rparr>"
proof -
  have h: "p_pool pool_two \<noteq> []" "p_pool pool_three = []" "p_available pool_three = []"
    "\<not> is_closed pool_three" "pool_size pool_three = 3" "w_fresh probe_fails = 0"
    by (simp_all add: pool_two_def pool_three_def pool3_def is_closed_def pool_size_def
        probe_fails_def)
  have t1: "initialize_pool pool_two calm = (Returns (), pool_two, calm)"
    using initialize_pool_partial_failure [of pool_two calm] h by blast
  have ok: "w_env (snd (snd (initialize_pool pool_three probe_fails)))
              (w_tick (snd (snd (initialize_pool pool_three probe_fails)))) = None"
    unfolding initialize_pool_three by (simp add: probe_fails_def)
  have l2: "[0..<2] = [0, 1::nat]" by code_simp
  have pos: "0 < successes probe_fails (nat (pool_size pool_three))"
    by (simp add: successes_three h(5))
  note T = initialize_pool_partial_failure [of pool_three probe_fails, THEN conjunct2,
      THEN conjunct1, rule_format, OF conjI [OF h(2) conjI [OF h(3) env_benign_worlds(3)]]]
  have t2: "initialised (fst (snd (initialize_pool pool_three probe_fails)))"
    "initialize_pool (fst (snd (initialize_pool pool_three probe_fails))) storm =
     (Returns (), fst (snd (initialize_pool pool_three probe_fails)), storm)"
    "fst (acquire (fst (snd (initialize_pool pool_three probe_fails)))
          (snd (snd (initialize_pool pool_three probe_fails)))) = Returns 0"
    using T pos h(4,6) ok by simp_all
  have t3: "initialised (fst (pool_run [Acquire, Release 0, CloseAll, Acquire] (pool_two, calm)))"
    using initialize_pool_partial_failure
      [of pool_two calm "[Acquire, Release 0, CloseAll, Acquire]"] initialised_pool_two by blast
  have t4: "lock_inv (init_run [0, 1, 0, 1, 0] (init_start pool_three probe_fails 2))"
    using initialize_pool_partial_failure [of pool_three probe_fails _ "[0, 1, 0, 1, 0]" 2]
    by blast
  have t5: "init_runs (w_trace (sys_world (init_run [0, 1, 0, 1, 0, 1] (init_start pool_two calm 2)))) =
      init_runs (w_trace (sys_world (init_start pool_two calm 2)))"
    using initialize_pool_partial_failure
      [of pool_two calm _ "[0, 1, 0, 1, 0, 1]" _ "init_start pool_two calm 2"] pool_two_system
    by blast
  have t6: "init_run (replicate 9 0) (init_start pool_three probe_fails 1) =
     \<lparr>sys_pool = pool_three\<lparr>p_pool := [0, 1], p_available := [0, 1]\<rparr>,
      sys_world = probe_fails\<lparr>w_tick := 3, w_fresh := 2,
        w_trace := [Logged INFO, Created 0, CreateFailed, Logged ERROR, Logged ERROR, Created 1]\<rparr>,
      sys_lock = None, sys_callers = [Left]\<rparr>"
  proof -
    have sz: "2 * nat (p_pool_size pool_three) + 3 \<le> 9"
      by (simp add: pool_three_def pool3_def)
    from initialize_pool_partial_failure
      [of pool_three probe_fails _ _ _ _
        "pool_three\<lparr>p_pool := [0, 1], p_available := [0, 1]\<rparr>"
        "probe_fails\<lparr>w_tick := 3, w_fresh := 2,
          w_trace := [Logged INFO, Created 0, CreateFailed, Logged ERROR, Logged ERROR, Created 1]\<rparr>" 9]
      initialize_pool_three sz
    show ?thesis by blast
  qed
  have t7: "init_runs (w_trace (sys_world (init_start pool_two calm 2))) = 0"
    by (simp add: init_start_def calm_def)
  show ?thesis
    using h t1 t2 t3 t4 t5 t6 t7 T env_benign_worlds(3) initialised_pool_two pool_two_system
    by (simp add: successes_three l2)
qed

lemma acquire_pool3_storm:
  "acquire pool3 storm =
     (Raises (raise_new ConnectionError ''Timeout waiting for available connection''), pool3,
      storm\<lparr>w_tick := 1,
        w_trace := [Logged INFO, CreateFailed, Logged ERROR, Logged ERROR, Waited 30]\<rparr>)"
  by (simp add: acquire_def ensure_initialized_def initialize_pool_def pool3_def storm_def
      create_connection_def emit_def Let_def is_Exception_def raise_from_def boom_def)

text \<open>
  The claim as stated: initialisation runs at most once per pool and concurrent callers never
  initialise twice.  With a server that refuses every creation, the pool list stays empty: two
  \<open>acquire\<close> calls in a row run the creation loop twice, and so do two concurrent callers of
  \<open>_initialize_pool\<close>, the second one after waiting for the lock (an INFO record and one creation
  attempt per run).
\<close>

theorem initialize_pool_rerun_counterexample:
  "p_pool (fst (snd (acquire pool3 storm))) = [] \<and>
   w_trace (snd (snd (acquire pool3 storm))) =
     [Logged INFO, CreateFailed, Logged ERROR, Logged ERROR, Waited 30] \<and>
   w_trace (snd (snd (acquire (fst (snd (acquire pool3 storm))) (snd (snd (acquire pool3 storm)))))) =
     [Logged INFO, CreateFailed, Logged ERROR, Logged ERROR, Waited 30,
      Logged INFO, CreateFailed, Logged ERROR, Logged ERROR, Waited 30] \<and>
   w_trace (sys_world (init_run [0, 1, 0, 0, 0, 1, 1, 1, 1] (init_start pool3 storm 2))) =
     [Logged INFO, CreateFailed, Logged ERROR, Logged ERROR,
      Logged INFO, CreateFailed, Logged ERROR, Logged ERROR] \<and>
   init_runs (w_trace (sys_world (init_run [0, 1, 0, 0, 0, 1, 1, 1, 1] (init_start pool3 storm 2)))) = 2"
proof -
  have seq: "p_pool (fst (snd (acquire pool3 storm))) = [] \<and>
     w_trace (snd (snd (acquire pool3 storm))) =
       [Logged INFO, CreateFailed, Logged ERROR, Logged ERROR, Waited 30] \<and>
     w_trace (snd (snd (acquire (fst (snd (acquire pool3 storm))) (snd (snd (acquire pool3 storm)))))) =
       [Logged INFO, CreateFailed, Logged ERROR, Logged ERROR, Waited 30,
        Logged INFO, CreateFailed, Logged ERROR, Logged ERROR, Waited 30]"
    unfolding acquire_pool3_storm
    by (simp add: acquire_def ensure_initialized_def initialize_pool_def pool3_def storm_def
        create_connection_def emit_def Let_def is_Exception_def raise_from_def boom_def)
  have conc: "w_trace (sys_world (init_run [0, 1, 0, 0, 0, 1, 1, 1, 1] (init_start pool3 storm 2))) =
     [Logged INFO, CreateFailed, Logged ERROR, Logged ERROR,
      Logged INFO, CreateFailed, Logged ERROR, Logged ERROR]"
    by (simp add: init_run_def init_step_def init_start_def move_def leave_def pool3_def storm_def
        create_connection_def emit_def Let_def is_Exception_def raise_from_def boom_def
        numeral_2_eq_2)
  show ?thesis using seq conc by simp
qed


lemma pool_init_unsupported_scheme:
  "(Url url = Inr scheme \<and> scheme \<noteq> HTTP \<and> scheme \<noteq> HTTPS \<and> scheme \<noteq> WS \<and> scheme \<noteq> WSS \<longrightarrow>
      pool_init Url url ns db auth n mr d =
        Raises (raise_new ValueError (''Unsupported URL scheme: '' @ scheme_name scheme))) \<and>
   (Url url = Inl e \<longrightarrow> pool_init Url url ns db auth n mr d = Raises e) \<and>
   (Url url = Inr scheme \<and> (scheme = HTTP \<or> scheme = HTTPS \<or> scheme = WS \<or> scheme = WSS) \<longrightarrow>
      (\<exists>p. pool_init Url url ns db auth n mr d = Returns p \<and> p_pool p = [] \<and>
           p_available p = [] \<and> \<not> p_closed p \<and> p_pool_size p = n))"
  by (auto simp: pool_init_def Let_def)

text \<open>
  C9.  \<open>__init__\<close> raises \<open>ValueError\<close> on a URL whose scheme is not supported, but the caller
  constructs the pool through the decorated class: the decorator logs the \<open>ValueError\<close> and the
  constructor call returns \<open>None\<close>, so no error reaches the caller.
\<close>

theorem connection_pool_swallows_scheme_error:
  "pool_init url_scheme_stub ''ftp://db'' ''ns'' ''db'' None 10 3 1 =
     Raises (raise_new ValueError ''Unsupported URL scheme: UrlScheme.FTP'') \<and>
   ConnectionPool url_scheme_stub ''ftp://db'' ''ns'' ''db'' None 10 3 1 [] =
     (Returns None, [Logged ERROR])"
  by (simp add: ConnectionPool_def logger_catch_def pool_init_def url_scheme_stub_def Let_def
      is_Exception_def raise_new_def)

end
